theory Spec2Isabelle
  imports Main "HOL-Library.Sublist" "HOL-Library.List_Lexorder" "HOL-Library.Char_ord"
begin

section \<open>Strings and paths of the Go standard library\<close>

text \<open>
  Go strings are byte sequences, modelled as \<^typ>\<open>string\<close>.  The functions of this section
  are the ones \<^verbatim>\<open>pluggen.go\<close> calls from the packages \<^verbatim>\<open>strings\<close> and
  \<^verbatim>\<open>path/filepath\<close>, with the path separator of a Unix system.
\<close>

abbreviation dquote :: char where "dquote \<equiv> CHR 0x22"
abbreviation newline :: char where "newline \<equiv> CHR 0x0A"
abbreviation tab :: char where "tab \<equiv> CHR 0x09"

text \<open>\<^verbatim>\<open>strings.Split(s, sep)\<close> for a one-byte separator: always at least one field.\<close>

fun strings_Split :: "string \<Rightarrow> char \<Rightarrow> string list" where
  "strings_Split [] sep = [[]]"
| "strings_Split (c # s) sep =
     (if c = sep then [] # strings_Split s sep
      else (case strings_Split s sep of
              [] \<Rightarrow> [[c]]
            | f # fs \<Rightarrow> (c # f) # fs))"

text \<open>\<^verbatim>\<open>strings.Join(elems, sep)\<close>.\<close>

fun strings_Join :: "string list \<Rightarrow> string \<Rightarrow> string" where
  "strings_Join [] sep = []"
| "strings_Join [e] sep = e"
| "strings_Join (e # f # es) sep = e @ sep @ strings_Join (f # es) sep"

text \<open>\<^verbatim>\<open>strings.Index(s, sep)\<close> for a one-byte separator; \<open>None\<close> is Go's \<open>-1\<close>.\<close>

fun strings_Index :: "string \<Rightarrow> char \<Rightarrow> nat option" where
  "strings_Index [] sep = None"
| "strings_Index (c # s) sep =
     (if c = sep then Some 0 else map_option Suc (strings_Index s sep))"

text \<open>\<^verbatim>\<open>strings.Trim(s, cutset)\<close> for a one-byte cutset.\<close>

definition strings_Trim :: "string \<Rightarrow> char \<Rightarrow> string" where
  "strings_Trim s c = rev (dropWhile (\<lambda>x. x = c) (rev (dropWhile (\<lambda>x. x = c) s)))"

text \<open>\<^verbatim>\<open>strings.Contains(s, substr)\<close>.\<close>

definition strings_Contains :: "string \<Rightarrow> string \<Rightarrow> bool" where
  "strings_Contains s substr = sublist substr s"

text \<open>
  \<^verbatim>\<open>strings.Replace(s, old, new, -1)\<close>: every non-overlapping occurrence of \<open>old\<close>, from the
  left.  With an empty \<open>old\<close> Go inserts \<open>new\<close> before every character and at the end.
\<close>

function strings_Replace :: "string \<Rightarrow> string \<Rightarrow> string \<Rightarrow> string" where
  "strings_Replace [] old new = (if old = [] then new else [])"
| "strings_Replace (c # s) old new =
     (if old = [] then new @ c # strings_Replace s old new
      else if prefix old (c # s) then new @ strings_Replace (drop (length old) (c # s)) old new
      else c # strings_Replace s old new)"
  by pat_completeness auto
termination
  by (relation "measure (\<lambda>(s, old, new). length s)") auto

text \<open>
  \<^verbatim>\<open>filepath.Clean\<close>: the elements of the path are read from the left; an empty element
  and \<open>.\<close> are dropped, \<open>..\<close> removes the element before it when there is one to remove, is
  dropped at the root and is kept in front of a relative path.  \<open>out\<close> holds the elements
  kept so far, the last one first.
\<close>

definition clean_elem :: "bool \<Rightarrow> string list \<Rightarrow> string \<Rightarrow> string list" where
  "clean_elem rooted out e =
     (if e = [] \<or> e = ''.'' then out
      else if e = ''..'' then
        (case out of
           [] \<Rightarrow> if rooted then [] else [''..'']
         | t # ts \<Rightarrow> if t \<noteq> ''..'' then ts else if rooted then out else ''..'' # out)
      else e # out)"

definition filepath_Clean :: "string \<Rightarrow> string" where
  "filepath_Clean path =
     (if path = [] then ''.''
      else
        (let rooted = (hd path = CHR ''/'');
             out = foldl (clean_elem rooted) [] (strings_Split path (CHR ''/''))
         in if rooted then CHR ''/'' # strings_Join (rev out) ''/''
            else if out = [] then ''.''
            else strings_Join (rev out) ''/''))"

text \<open>
  \<^verbatim>\<open>filepath.Join\<close>: empty elements in front are ignored, the rest is joined with the
  separator and cleaned; with nothing but empty elements the result is empty.
  \<^verbatim>\<open>path.Join\<close>, which \<^verbatim>\<open>fs.WalkDir\<close> uses, is the same function on a Unix system.
\<close>

definition filepath_Join :: "string list \<Rightarrow> string" where
  "filepath_Join elem =
     (case dropWhile (\<lambda>e. e = []) elem of
        [] \<Rightarrow> []
      | es \<Rightarrow> filepath_Clean (strings_Join es ''/''))"

text \<open>\<^verbatim>\<open>filepath.Dir\<close>: the path up to its last separator, cleaned.\<close>

definition filepath_Dir :: "string \<Rightarrow> string" where
  "filepath_Dir path = filepath_Clean (rev (dropWhile (\<lambda>c. c \<noteq> CHR ''/'') (rev path)))"

text \<open>\<^verbatim>\<open>filepath.Ext\<close>: from the last dot of the last element on, empty without a dot.\<close>

definition filepath_Ext :: "string \<Rightarrow> string" where
  "filepath_Ext path =
     (let final = takeWhile (\<lambda>c. c \<noteq> CHR ''/'') (rev path)
      in if CHR ''.'' \<in> set final
         then CHR ''.'' # rev (takeWhile (\<lambda>c. c \<noteq> CHR ''.'') final)
         else [])"

text \<open>\<^verbatim>\<open>filepath.Base\<close>: the last element, after the trailing separators are removed.\<close>

definition filepath_Base :: "string \<Rightarrow> string" where
  "filepath_Base path =
     (if path = [] then ''.''
      else
        (let stripped = dropWhile (\<lambda>c. c = CHR ''/'') (rev path);
             final = rev (takeWhile (\<lambda>c. c \<noteq> CHR ''/'') stripped)
         in if final = [] then ''/'' else final))"

definition filepath_IsAbs :: "string \<Rightarrow> bool" where
  "filepath_IsAbs path = prefix ''/'' path"

section \<open>The import mapping table\<close>

definition schemasPath :: string where
  "schemasPath = ''github.com/grafana/grafana/packages/grafana-schema/src/schema''"

text \<open>
  \<^verbatim>\<open>importMap\<close>: CUE import paths with their TypeScript import paths.  The entries are kept as
  a list, the Go map is \<open>map_of\<close> of it.
\<close>

definition importMap_entries :: "(string \<times> string) list" where
  "importMap_entries = [(''github.com/grafana/thema'', ''''), (schemasPath, ''@grafana/schema'')]"

definition importMap :: "string \<rightharpoonup> string" where
  "importMap = map_of importMap_entries"

text \<open>Reading a Go map at a missing key gives the zero value, the empty string.\<close>

definition importMap_index :: "string \<Rightarrow> string" where
  "importMap_index k = (case importMap k of None \<Rightarrow> [] | Some v \<Rightarrow> v)"

section \<open>Imports\<close>

text \<open>
  \<^verbatim>\<open>ast.ImportSpec\<close>: \<open>Name\<close> is \<open>None\<close> for a nil identifier, \<open>Path_Value\<close> is the
  literal as written in the file, with its quotes; \<open>Pos\<close> stands for the token position.
\<close>

record ImportSpec =
  Name :: "string option"
  Path_Value :: string
  Pos :: nat

record tsImport =
  Ident :: string
  Pkg :: string

definition convertImport :: "ImportSpec \<Rightarrow> tsImport" where
  "convertImport im =
     (let tsim = \<lparr>Ident = [], Pkg = importMap_index schemasPath\<rparr>;
          sl = strings_Split (Path_Value im) (CHR ''/'');
          final = last sl;
          unnamed = (case strings_Index final (CHR '':'') of
                       Some idx \<Rightarrow> tsim\<lparr>Pkg := drop idx final\<rparr>
                     | None \<Rightarrow> tsim\<lparr>Pkg := final\<rparr>)
      in case Name im of
           None \<Rightarrow> unnamed
         | Some n \<Rightarrow> if n \<noteq> [] then tsim\<lparr>Ident := n\<rparr> else unnamed)"

text \<open>
  Go errors.  \<open>SkipDir\<close> is the sentinel \<^verbatim>\<open>fs.SkipDir\<close>, \<open>Err\<close> an error made by
  \<^verbatim>\<open>fmt.Errorf\<close> or received from a library, with its message, \<open>CueErr\<close> an error of
  \<^verbatim>\<open>cue/errors\<close> with a position.
\<close>

datatype goerr = SkipDir | Err string | CueErr nat string

text \<open>
  The loop over \<^verbatim>\<open>pf.Imports\<close> in the plugin branch.  The state is the set \<open>iseen\<close> and
  \<^verbatim>\<open>f.Imports\<close>; \<open>ip_of\<close> is the import path with its quotes trimmed, the variable \<open>ip\<close>.  \<open>q\<close> is the verb \<^verbatim>\<open>%q\<close> of \<^verbatim>\<open>fmt\<close>, \<open>keys\<close> the order in which
  \<^verbatim>\<open>range importMap\<close> yields the keys in this run.
\<close>

definition import_not_allowed :: "(string \<Rightarrow> string) \<Rightarrow> string list \<Rightarrow> string \<Rightarrow> string \<Rightarrow> string" where
  "import_not_allowed q keys path ip =
     path @ '': import '' @ q ip @ '' not allowed, panel plugins may only import from:'' @ [newline]
       @ strings_Join (map (\<lambda>im. tab # im) keys) [newline] @ [newline]"

definition ip_of :: "ImportSpec \<Rightarrow> string" where
  "ip_of im = strings_Trim (Path_Value im) dquote"

fun import_loop ::
  "(string \<Rightarrow> string) \<Rightarrow> string list \<Rightarrow> string \<Rightarrow> ImportSpec list
    \<Rightarrow> string set \<times> tsImport list \<Rightarrow> goerr + string set \<times> tsImport list" where
  "import_loop q keys path [] (iseen, imports) = Inr (iseen, imports)"
| "import_loop q keys path (im # ims) (iseen, imports) =
     (let ip = ip_of im in
      case importMap ip of
        None \<Rightarrow> Inl (CueErr (Pos im) (import_not_allowed q keys path ip))
      | Some mappath \<Rightarrow>
          if mappath \<noteq> [] \<and> ip \<notin> iseen
          then import_loop q keys path ims (insert ip iseen, imports @ [convertImport im])
          else import_loop q keys path ims (iseen, imports))"

section \<open>File systems and \<^verbatim>\<open>fs.WalkDir\<close>\<close>

text \<open>
  An \<^verbatim>\<open>fs.FS\<close> is a tree.  A file carries what reading it gives: its bytes, or the message
  of the error with which \<^verbatim>\<open>Open\<close> fails.  A directory carries its entries in the order
  in which \<^verbatim>\<open>ReadDir\<close> returns them (sorted by name); \<open>BadDirectory\<close> is a directory whose
  listing fails with the given message.
\<close>

datatype node = File "string + string" | Directory "(string \<times> node) list" | BadDirectory string

fun IsDir :: "node \<Rightarrow> bool" where
  "IsDir (File c) = False"
| "IsDir (Directory es) = True"
| "IsDir (BadDirectory e) = True"

text \<open>A panic is not an error value: it unwinds through every caller.\<close>

datatype failure = Error goerr | Panic string

text \<open>\<^verbatim>\<open>fs.DirEntry\<close>: \<open>Name()\<close> and \<open>IsDir()\<close>.\<close>

type_synonym DirEntry = "string \<times> bool"

text \<open>
  \<^verbatim>\<open>fs.WalkDirFunc\<close>, a closure over a state \<open>'st\<close>: it gets the path, the entry (nil when
  the root cannot be found) and the error of the walk, and returns its error and the state.
\<close>

type_synonym 'st WalkDirFunc =
  "string \<Rightarrow> DirEntry option \<Rightarrow> goerr option \<Rightarrow> 'st \<Rightarrow> failure option \<times> 'st"

fun fs_descend :: "node \<Rightarrow> string list \<Rightarrow> node option" where
  "fs_descend n [] = Some n"
| "fs_descend (Directory es) (x # xs) =
     (case map_of es x of None \<Rightarrow> None | Some c \<Rightarrow> fs_descend c xs)"
| "fs_descend (File c) (x # xs) = None"
| "fs_descend (BadDirectory e) (x # xs) = None"

definition fs_Stat :: "node \<Rightarrow> string \<Rightarrow> node option" where
  "fs_Stat fsys name =
     (if name = ''.'' then Some fsys else fs_descend fsys (strings_Split name (CHR ''/'')))"

definition not_exist :: "string \<Rightarrow> goerr" where
  "not_exist name = Err (''open '' @ name @ '': file does not exist'')"

text \<open>\<^verbatim>\<open>Open\<close> gives the node as the open file; \<^verbatim>\<open>io.ReadAll\<close> reads it.\<close>

definition fs_Open :: "node \<Rightarrow> string \<Rightarrow> goerr + node" where
  "fs_Open fsys name =
     (case fs_Stat fsys name of
        None \<Rightarrow> Inl (not_exist name)
      | Some (File (Inl e)) \<Rightarrow> Inl (Err e)
      | Some n \<Rightarrow> Inr n)"

fun io_ReadAll :: "node \<Rightarrow> goerr + string" where
  "io_ReadAll (File (Inr b)) = Inr b"
| "io_ReadAll (File (Inl e)) = Inl (Err e)"
| "io_ReadAll (Directory es) = Inl (Err ''is a directory'')"
| "io_ReadAll (BadDirectory e) = Inl (Err ''is a directory'')"

text \<open>
  \<^verbatim>\<open>walkDir\<close> of package \<^verbatim>\<open>io/fs\<close>: the function is called on the entry; on a directory
  the entries are then walked in order.  \<^verbatim>\<open>fs.SkipDir\<close> returned for a directory skips it,
  returned for a file it ends the walk of the directory the file is in.
\<close>

fun walkDir :: "'st WalkDirFunc \<Rightarrow> string \<Rightarrow> string \<Rightarrow> node \<Rightarrow> 'st \<Rightarrow> failure option \<times> 'st"
  and walkDir_range :: "'st WalkDirFunc \<Rightarrow> string \<Rightarrow> (string \<times> node) list \<Rightarrow> 'st \<Rightarrow> failure option \<times> 'st"
where
  "walkDir fn name dname (File c) st = fn name (Some (dname, False)) None st"
| "walkDir fn name dname (BadDirectory e) st =
     (case fn name (Some (dname, True)) None st of
        (Some (Error SkipDir), st') \<Rightarrow> (None, st')
      | (Some f, st') \<Rightarrow> (Some f, st')
      | (None, st') \<Rightarrow>
          (case fn name (Some (dname, True)) (Some (Err e)) st' of
             (Some (Error SkipDir), st'') \<Rightarrow> (None, st'')
           | r \<Rightarrow> r))"
| "walkDir fn name dname (Directory es) st =
     (case fn name (Some (dname, True)) None st of
        (Some (Error SkipDir), st') \<Rightarrow> (None, st')
      | (Some f, st') \<Rightarrow> (Some f, st')
      | (None, st') \<Rightarrow> walkDir_range fn name es st')"
| "walkDir_range fn name [] st = (None, st)"
| "walkDir_range fn name ((n, c) # es) st =
     (case walkDir fn (filepath_Join [name, n]) n c st of
        (Some (Error SkipDir), st') \<Rightarrow> (None, st')
      | (Some f, st') \<Rightarrow> (Some f, st')
      | (None, st') \<Rightarrow> walkDir_range fn name es st')"

definition WalkDir :: "node \<Rightarrow> string \<Rightarrow> 'st WalkDirFunc \<Rightarrow> 'st \<Rightarrow> failure option \<times> 'st" where
  "WalkDir fsys root fn st =
     (case (case fs_Stat fsys root of
              None \<Rightarrow> fn root None (Some (not_exist root)) st
            | Some n \<Rightarrow> walkDir fn root (filepath_Base root) n st) of
        (Some (Error SkipDir), st') \<Rightarrow> (None, st')
      | r \<Rightarrow> r)"

section \<open>The overlay builder\<close>

text \<open>
  \<^verbatim>\<open>toOverlay\<close>.  \<^verbatim>\<open>tload.ToOverlay\<close> of the schema library, which the loader calls, is the
  function this one was copied from, and is read as the same definition.  \<open>q\<close> is the verb
  \<^verbatim>\<open>%q\<close>.
\<close>

type_synonym overlay = "string \<rightharpoonup> string"

definition toOverlay_fn :: "string \<Rightarrow> node \<Rightarrow> overlay WalkDirFunc" where
  "toOverlay_fn pfx vfs path d err overlay =
     (case err of
        Some e \<Rightarrow> (Some (Error e), overlay)
      | None \<Rightarrow>
         (case d of
            None \<Rightarrow> (Some (Panic ''nil pointer dereference''), overlay)
          | Some (dname, isdir) \<Rightarrow>
              if isdir then (None, overlay)
              else
                (case fs_Open vfs path of
                   Inl e \<Rightarrow> (Some (Error e), overlay)
                 | Inr f \<Rightarrow>
                    (case io_ReadAll f of
                       Inl e \<Rightarrow> (Some (Error e), overlay)
                     | Inr b \<Rightarrow> (None, overlay(filepath_Join [pfx, path] \<mapsto> b))))))"

definition toOverlay ::
  "(string \<Rightarrow> string) \<Rightarrow> string \<Rightarrow> node \<Rightarrow> overlay \<Rightarrow> failure option \<times> overlay" where
  "toOverlay q pfx vfs overlay =
     (if \<not> filepath_IsAbs pfx
      then (Some (Error (Err (''must provide absolute path prefix when generating cue overlay, got '' @ q pfx))),
            overlay)
      else WalkDir vfs ''.'' (toOverlay_fn pfx vfs) overlay)"

section \<open>The libraries behind the generator\<close>

text \<open>\<^verbatim>\<open>load.Config\<close>, with the fields the generator sets.\<close>

record load_Config =
  Overlay :: overlay
  ModuleRoot :: string
  Module :: string
  Dir :: string
  Package :: string

text \<open>\<^verbatim>\<open>ast.File\<close>: only the import section is read.\<close>

record ast_File =
  Imports :: "ImportSpec list"

text \<open>
  What the generator calls and does not define is a field of the environment: the CUE
  loader, evaluator and parser, the TypeScript emitter and the schema library, with the build
  instances \<open>'i\<close>, the CUE values \<open>'v\<close> and the lineages \<open>'l\<close> left open.  An error of a
  library is given by its message.
  \<^item> \<open>load_Instances\<close> is \<^verbatim>\<open>load.Instances(nil, cfg)\<close> and \<open>Instance_Err\<close> the field
    \<^verbatim>\<open>Err\<close> of an instance;
  \<^item> \<open>ctx_BuildInstance\<close> is \<^verbatim>\<open>ctx.BuildInstance\<close>, \<open>cuetsy_Generate\<close> is
    \<^verbatim>\<open>cuetsy.Generate(v, cuetsy.Config{})\<close>;
  \<^item> \<open>parser_ParseFile\<close> is \<^verbatim>\<open>parser.ParseFile(filename, src, parser.ParseComments)\<close>
    with both of its results, the file and the error, each of which may be nil;
  \<^item> \<open>module_String\<close> compiles the bytes of \<^verbatim>\<open>cue.mod/module.cue\<close> and reads the field
    \<^verbatim>\<open>module\<close> as a string;
  \<^item> \<open>thema_BindLineage\<close> is \<^verbatim>\<open>thema.BindLineage\<close> on the field \<^verbatim>\<open>Panel\<close> of the
    value, \<open>thema_LatestVersion\<close> is \<^verbatim>\<open>thema.LatestVersion\<close> and \<open>thema_SchemaP\<close> is
    \<^verbatim>\<open>thema.SchemaP(lin, v).UnwrapCUE()\<close>;
  \<^item> \<open>grafana_CueSchemaFS\<close>, \<open>thema_CueFS\<close> and \<open>thema_CueJointFS\<close> are the embedded
    file systems;
  \<^item> \<open>fmt_q\<close> is the verb \<^verbatim>\<open>%q\<close>, \<open>importMap_range\<close> the order in which the runtime
    makes \<^verbatim>\<open>range importMap\<close> yield the keys, \<open>errors_Details\<close> is
    \<^verbatim>\<open>errors.Details(err, nil)\<close>.
\<close>

record ('i, 'v, 'l) env =
  load_Instances :: "load_Config \<Rightarrow> 'i list"
  Instance_Err :: "'i \<Rightarrow> string option"
  ctx_BuildInstance :: "'i \<Rightarrow> 'v"
  cuetsy_Generate :: "'v \<Rightarrow> string + string"
  parser_ParseFile :: "string \<Rightarrow> node option \<Rightarrow> ast_File option \<times> string option"
  module_String :: "string \<Rightarrow> string + string"
  thema_BindLineage :: "'v \<Rightarrow> string + 'l"
  thema_LatestVersion :: "'l \<Rightarrow> nat \<times> nat"
  thema_SchemaP :: "'l \<Rightarrow> nat \<times> nat \<Rightarrow> 'v"
  grafana_CueSchemaFS :: node
  thema_CueFS :: node
  thema_CueJointFS :: node
  fmt_q :: "string \<Rightarrow> string"
  importMap_range :: "string list"
  errors_Details :: "goerr \<Rightarrow> string"

text \<open>The message of an error, as \<^verbatim>\<open>%w\<close> prints it.\<close>

fun Error_string :: "goerr \<Rightarrow> string" where
  "Error_string SkipDir = ''skip this directory''"
| "Error_string (Err m) = m"
| "Error_string (CueErr p m) = m"

section \<open>The template\<close>

record tsFile =
  V :: "nat \<times> nat"
  WriteModelVersion :: bool
  Imports :: "tsImport list"
  Body :: string

abbreviation squote :: char where "squote \<equiv> CHR 0x27"

text \<open>An unsigned integer in decimal, as the template prints the components of a version.\<close>

function itoa :: "nat \<Rightarrow> string" where
  "itoa n = (if n < 10 then [char_of (48 + n)] else itoa (n div 10) @ [char_of (48 + n mod 10)])"
  by pat_completeness auto
termination
  by (relation "measure id") auto

definition tsTemplate_header :: string where
  "tsTemplate_header =
     ''//'' @ replicate 77 (CHR ''~'') @ [newline]
     @ ''// This file is autogenerated. DO NOT EDIT.'' @ [newline]
     @ ''//'' @ [newline]
     @ ''// To regenerate, run '' @ [dquote] @ ''make gen-cue'' @ [dquote]
     @ '' from the repository root.'' @ [newline]
     @ ''//'' @ replicate 77 (CHR ''~'') @ [newline]"

text \<open>
  \<^verbatim>\<open>tsTemplate.Execute(&buf, f)\<close>: the header, a line for each import, the version when
  \<open>WriteModelVersion\<close> is set, the body.  Executing this template into a buffer has no
  error to return.
\<close>

definition tsTemplate_Execute :: "tsFile \<Rightarrow> string" where
  "tsTemplate_Execute f =
     tsTemplate_header
     @ concat (map (\<lambda>i. [newline] @ ''import * as '' @ Ident i @ '' from '' @ [squote] @ Pkg i
                          @ [squote] @ '';'') (tsFile.Imports f))
     @ [newline]
     @ (if WriteModelVersion f
        then [newline] @ ''export const modelVersion = Object.freeze(['' @ itoa (fst (V f)) @ '', ''
             @ itoa (snd (V f)) @ '']);'' @ [newline]
        else [])
     @ [newline]
     @ Body f"

section \<open>The module-aware loader\<close>

definition themamodpath :: string where
  "themamodpath = filepath_Join [''cue.mod'', ''pkg'', ''github.com'', ''grafana'', ''thema'']"

text \<open>
  The function that \<^verbatim>\<open>loadInstancesWithThema\<close> walks \<^verbatim>\<open>cue.mod\<close> with; its state is
  the variable \<open>modname\<close>.  \<^verbatim>\<open>filepath.FromSlash\<close> changes nothing on a Unix system.
\<close>

definition modname_fn :: "('i, 'v, 'l) env \<Rightarrow> node \<Rightarrow> string WalkDirFunc" where
  "modname_fn E modFS path d err modname =
     (let normpath = path in
      case err of
        Some e \<Rightarrow> (Some (Error e), modname)
      | None \<Rightarrow>
         (case d of
            None \<Rightarrow> (Some (Panic ''nil pointer dereference''), modname)
          | Some (dname, isdir) \<Rightarrow>
              if isdir then
                (if normpath = filepath_Join [''cue.mod'', ''gen'']
                    \<or> normpath = filepath_Join [''cue.mod'', ''usr'']
                 then (Some (Error SkipDir), modname)
                 else if normpath = themamodpath
                 then (Some (Error (Err (''path '' @ fmt_q E themamodpath
                         @ '' already exists in modFS passed to InstancesWithThema, must be absent for dynamic dependency injection''))),
                       modname)
                 else (None, modname))
              else if normpath = filepath_Join [''cue.mod'', ''module.cue''] then
                (case fs_Open modFS path of
                   Inl e \<Rightarrow> (Some (Error e), modname)
                 | Inr modf \<Rightarrow>
                    (case io_ReadAll modf of
                       Inl e \<Rightarrow> (Some (Error e), modname)
                     | Inr b \<Rightarrow>
                        (case module_String E b of
                           Inl e \<Rightarrow> (Some (Error (Err e)), [])
                         | Inr m \<Rightarrow>
                             if m = []
                             then (Some (Error (Err ''InstancesWithThema requires non-empty module name in modFS' cue.mod/module.cue'')), m)
                             else (None, m))))
              else (None, modname)))"

text \<open>
  \<^verbatim>\<open>loadInstancesWithThema\<close> up to the load configuration: the module name, the overlay
  of the module with the schema library in it, the directory and the package.
\<close>

definition loader_Config ::
  "('i, 'v, 'l) env \<Rightarrow> node \<Rightarrow> string \<Rightarrow> string \<Rightarrow> failure + load_Config" where
  "loader_Config E modFS dir pkgname =
     (case WalkDir modFS ''cue.mod'' (modname_fn E modFS) [] of
        (Some f, _) \<Rightarrow> Inl f
      | (None, modname) \<Rightarrow>
          if modname = [] then Inl (Error (Err ''cue.mod/module.cue did not exist''))
          else
            (let modroot = filepath_Join [''/'', modname] in
             case toOverlay (fmt_q E) modroot modFS Map.empty of
               (Some f, _) \<Rightarrow> Inl f
             | (None, overlay) \<Rightarrow>
                (case (if modname = ''github.com/grafana/thema''
                       then toOverlay (fmt_q E) modroot (thema_CueJointFS E) overlay
                       else toOverlay (fmt_q E) (filepath_Join [modroot, themamodpath])
                              (thema_CueFS E) overlay) of
                   (Some f, _) \<Rightarrow> Inl f
                 | (None, overlay') \<Rightarrow>
                    (let dir' = (if dir = [] then ''.'' else dir);
                         cfg = \<lparr>Overlay = overlay', ModuleRoot = modroot, Module = modname,
                                Dir = filepath_Join [modroot, dir'], Package = pkgname\<rparr>
                     in Inr (if dir' = ''.''
                             then cfg\<lparr>Package := filepath_Base modroot, Dir := modroot\<rparr>
                             else cfg)))))"

text \<open>Indexing an empty slice panics.\<close>

definition loadInstancesWithThema ::
  "('i, 'v, 'l) env \<Rightarrow> node \<Rightarrow> string \<Rightarrow> string \<Rightarrow> failure + 'i" where
  "loadInstancesWithThema E modFS dir pkgname =
     (case loader_Config E modFS dir pkgname of
        Inl f \<Rightarrow> Inl f
      | Inr cfg \<Rightarrow>
         (case load_Instances E cfg of
            [] \<Rightarrow> Inl (Panic ''index out of range [0] with length 0'')
          | inst # _ \<Rightarrow>
             (case Instance_Err E inst of
                Some e \<Rightarrow> Inl (Error (Err e))
              | None \<Rightarrow> Inr inst)))"

section \<open>The walker\<close>

definition skipPaths :: "string list" where
  "skipPaths =
     [''public/app/plugins/panel/barchart/models.cue'',
      ''public/app/plugins/panel/canvas/models.cue'',
      ''public/app/plugins/panel/histogram/models.cue'',
      ''public/app/plugins/panel/heatmap-new/models.cue'',
      ''public/app/plugins/panel/candlestick/models.cue'',
      ''public/app/plugins/panel/state-timeline/models.cue'',
      ''public/app/plugins/panel/status-history/models.cue'',
      ''public/app/plugins/panel/table/models.cue'',
      ''public/app/plugins/panel/timeseries/models.cue'']"

definition prefix_root :: string where
  "prefix_root = ''/''"

definition exclude :: "string \<Rightarrow> bool" where
  "exclude path = (path \<in> set skipPaths \<or> filepath_Dir path = ''cue.mod'')"

datatype strategy = Generic | Plugin

text \<open>
  What the closures of \<^verbatim>\<open>CuetsifyPlugins\<close> share: the set \<open>seen\<close>, the load configuration
  \<open>clcfg\<close> and the collector \<open>outfiles\<close>.  \<open>dispatched\<close> is a history variable, not in the
  code: the files that reached the \<^verbatim>\<open>switch\<close>, in order, each with the branch taken.
\<close>

record gen_state =
  seen :: "string set"
  clcfg :: load_Config
  outfiles :: overlay
  dispatched :: "(string \<times> strategy) list"

text \<open>The \<^verbatim>\<open>default\<close> branch of the \<^verbatim>\<open>switch\<close>.\<close>

definition generic_strategy ::
  "('i, 'v, 'l) env \<Rightarrow> load_Config \<Rightarrow> string \<Rightarrow> failure + tsFile \<times> string" where
  "generic_strategy E cfg path =
     (let f = \<lparr>V = (0, 0), WriteModelVersion = False, Imports = [], Body = []\<rparr>;
          insts = load_Instances E cfg
      in if length insts > 1
         then Inl (Error (Err (path @ '': resulted in more than one instance'')))
         else
           (case insts of
              [] \<Rightarrow> Inl (Panic ''index out of range [0] with length 0'')
            | inst # _ \<Rightarrow>
               (case cuetsy_Generate E (ctx_BuildInstance E inst) of
                  Inl e \<Rightarrow> Inl (Error (Err e))
                | Inr b \<Rightarrow> Inr (f, b))))"

text \<open>
  The branch for \<^verbatim>\<open>public/app/plugins\<close>.  The errors of \<^verbatim>\<open>in.Open\<close> and of
  \<^verbatim>\<open>parser.ParseFile\<close> are assigned to the blank identifier; a nil file makes
  \<^verbatim>\<open>pf.Imports\<close> panic.
\<close>

definition plugin_strategy ::
  "('i, 'v, 'l) env \<Rightarrow> node \<Rightarrow> string \<Rightarrow> string \<Rightarrow> failure + tsFile \<times> string" where
  "plugin_strategy E in_fs path dir =
     (let f = \<lparr>V = (0, 0), WriteModelVersion = False, Imports = [], Body = []\<rparr> in
      case loadInstancesWithThema E in_fs dir ''grafanaschema'' of
        Inl (Panic p) \<Rightarrow> Inl (Panic p)
      | Inl (Error e) \<Rightarrow>
          Inl (Error (Err (''could not load CUE instance for '' @ dir @ '': '' @ Error_string e)))
      | Inr inst \<Rightarrow>
         (let of_file = (case fs_Open in_fs path of Inl _ \<Rightarrow> None | Inr h \<Rightarrow> Some h) in
          case fst (parser_ParseFile E (filepath_Base path) of_file) of
            None \<Rightarrow> Inl (Panic ''nil pointer dereference'')
          | Some pf \<Rightarrow>
             (case import_loop (fmt_q E) (importMap_range E) path (ast_File.Imports pf) ({}, []) of
                Inl e \<Rightarrow> Inl (Error e)
              | Inr (iseen, imports) \<Rightarrow>
                 (let f1 = f\<lparr>Imports := imports\<rparr>;
                      v = ctx_BuildInstance E inst
                  in case thema_BindLineage E v of
                       Inl e \<Rightarrow> Inl (Error (Err (path @ '': failed to bind lineage: '' @ e)))
                     | Inr lin \<Rightarrow>
                        (let f2 = f1\<lparr>V := thema_LatestVersion E lin, WriteModelVersion := True\<rparr>
                         in case cuetsy_Generate E (thema_SchemaP E lin (V f2)) of
                              Inl e \<Rightarrow> Inl (Error (Err e))
                            | Inr b \<Rightarrow> Inr (f2, b))))))"

text \<open>The function \<^verbatim>\<open>cuetsify\<close> walks the tree with.\<close>

definition cuetsify_fn :: "('i, 'v, 'l) env \<Rightarrow> string \<Rightarrow> node \<Rightarrow> gen_state WalkDirFunc" where
  "cuetsify_fn E root in_fs path d err st =
     (case err of
        Some e \<Rightarrow> (Some (Error e), st)
      | None \<Rightarrow>
         (let dir = filepath_Dir path in
          case d of
            None \<Rightarrow> (Some (Panic ''nil pointer dereference''), st)
          | Some (dname, isdir) \<Rightarrow>
              if isdir \<or> filepath_Ext dname \<noteq> ''.cue'' \<or> dir \<in> seen st \<or> exclude path
              then (None, st)
              else
                (let plugin = strings_Contains path ''public/app/plugins'';
                     st1 = st\<lparr>seen := insert dir (seen st),
                              clcfg := (clcfg st)\<lparr>Dir := filepath_Join [root, dir]\<rparr>,
                              dispatched := dispatched st @ [(path, if plugin then Plugin else Generic)]\<rparr>
                 in case (if plugin then plugin_strategy E in_fs path dir
                          else generic_strategy E (clcfg st1) path) of
                      Inl fl \<Rightarrow> (Some fl, st1)
                    | Inr (f, b) \<Rightarrow>
                       (let buf = tsTemplate_Execute (f\<lparr>Body := b\<rparr>);
                            out = filepath_Join [root, strings_Replace path ''.cue'' ''.gen.ts'']
                        in (None, st1\<lparr>outfiles := (outfiles st1)(out \<mapsto> buf)\<rparr>)))))"

definition cuetsify ::
  "('i, 'v, 'l) env \<Rightarrow> string \<Rightarrow> node \<Rightarrow> gen_state \<Rightarrow> failure option \<times> gen_state" where
  "cuetsify E root in_fs st = WalkDir in_fs ''.'' (cuetsify_fn E root in_fs) (st\<lparr>seen := {}\<rparr>)"

definition CuetsifyPlugins :: "('i, 'v, 'l) env \<Rightarrow> string \<Rightarrow> failure + overlay" where
  "CuetsifyPlugins E root =
     (case toOverlay (fmt_q E) prefix_root (grafana_CueSchemaFS E) Map.empty of
        (Some f, _) \<Rightarrow> Inl f
      | (None, overlay) \<Rightarrow>
         (let cfg = \<lparr>Overlay = overlay, ModuleRoot = prefix_root,
                     Module = ''github.com/grafana/grafana'', Dir = [], Package = []\<rparr>;
              st0 = \<lparr>seen = {}, clcfg = cfg, outfiles = Map.empty, dispatched = []\<rparr>
          in case cuetsify E root (grafana_CueSchemaFS E) st0 of
               (Some (Error e), _) \<Rightarrow> Inl (Error (Err (errors_Details E e)))
             | (Some (Panic p), _) \<Rightarrow> Inl (Panic p)
             | (None, st) \<Rightarrow> Inr (outfiles st)))"

section \<open>Notions the properties are stated with\<close>

text \<open>
  The first occurrences in a list with respect to a key: the element at index \<open>i\<close> stays
  when no element before it has its key.
\<close>

definition first_by :: "('a \<Rightarrow> 'k) \<Rightarrow> 'a list \<Rightarrow> 'a list" where
  "first_by key xs =
     map (nth xs) (filter (\<lambda>i. key (xs ! i) \<notin> key ` set (take i xs)) [0..<length xs])"

text \<open>The same by recursion, with the keys seen so far, among the elements that satisfy \<open>P\<close>.\<close>

fun firsts :: "('a \<Rightarrow> bool) \<Rightarrow> ('a \<Rightarrow> 'k) \<Rightarrow> 'k set \<Rightarrow> 'a list \<Rightarrow> 'a list" where
  "firsts P key S [] = []"
| "firsts P key S (x # xs) =
     (if P x \<and> key x \<notin> S then x # firsts P key (insert (key x) S) xs else firsts P key S xs)"

text \<open>
  A well-formed tree: the names of the entries of a directory are path elements (not empty,
  without a separator, neither \<open>.\<close> nor \<open>..\<close>) and differ from each other, as \<^verbatim>\<open>fs.FS\<close>
  requires.  \<open>path_of\<close> is the path with the given elements, the root for none.
\<close>

definition valid_name :: "string \<Rightarrow> bool" where
  "valid_name n = (n \<noteq> [] \<and> CHR ''/'' \<notin> set n \<and> n \<noteq> ''.'' \<and> n \<noteq> ''..'')"

fun wf_node :: "node \<Rightarrow> bool" and wf_entries :: "(string \<times> node) list \<Rightarrow> bool" where
  "wf_node (File c) = True"
| "wf_node (BadDirectory e) = True"
| "wf_node (Directory es) = (distinct (map fst es) \<and> wf_entries es)"
| "wf_entries [] = True"
| "wf_entries ((n, c) # es) = (valid_name n \<and> wf_node c \<and> wf_entries es)"

definition path_of :: "string list \<Rightarrow> string" where
  "path_of ns = (if ns = [] then ''.'' else strings_Join ns ''/'')"

text \<open>
  The calls \<^verbatim>\<open>fs.WalkDir\<close> makes on a tree, in order, when no call returns an error:
  the path, the entry and the error each call gets.
\<close>

type_synonym call = "string \<times> DirEntry option \<times> goerr option"

fun walk_list :: "string \<Rightarrow> string \<Rightarrow> node \<Rightarrow> call list"
  and walk_list_range :: "string \<Rightarrow> (string \<times> node) list \<Rightarrow> call list"
where
  "walk_list name dname (File c) = [(name, Some (dname, False), None)]"
| "walk_list name dname (BadDirectory e) =
     [(name, Some (dname, True), None), (name, Some (dname, True), Some (Err e))]"
| "walk_list name dname (Directory es) =
     (name, Some (dname, True), None) # walk_list_range name es"
| "walk_list_range name [] = []"
| "walk_list_range name ((n, c) # es) =
     walk_list (filepath_Join [name, n]) n c @ walk_list_range name es"

text \<open>The calls made one after the other, up to the first that returns an error.\<close>

fun run_calls :: "'st WalkDirFunc \<Rightarrow> call list \<Rightarrow> 'st \<Rightarrow> failure option \<times> 'st" where
  "run_calls fn [] st = (None, st)"
| "run_calls fn ((path, d, err) # cs) st =
     (case fn path d err st of
        (None, st') \<Rightarrow> run_calls fn cs st'
      | (Some f, st') \<Rightarrow> (Some f, st'))"

text \<open>The function never answers with \<^verbatim>\<open>fs.SkipDir\<close>, unless it is given it.\<close>

definition no_skip :: "'st WalkDirFunc \<Rightarrow> bool" where
  "no_skip fn = (\<forall>path d err st. err \<noteq> Some SkipDir \<longrightarrow> fst (fn path d err st) \<noteq> Some (Error SkipDir))"

text \<open>
  A call qualifies when it is for a file with the extension \<^verbatim>\<open>.cue\<close> that is not excluded;
  \<open>schema_files\<close> are the paths of the qualifying calls of a tree, in walk order, and
  \<open>call_dir\<close> is the directory of the path of a call.
\<close>

definition qual :: "call \<Rightarrow> bool" where
  "qual c = (case c of (path, d, err) \<Rightarrow>
      err = None \<and> (case d of None \<Rightarrow> False
                     | Some (dname, isdir) \<Rightarrow> \<not> isdir \<and> filepath_Ext dname = ''.cue'' \<and> \<not> exclude path))"

definition call_dir :: "call \<Rightarrow> string" where
  "call_dir c = filepath_Dir (fst c)"

definition schema_files :: "node \<Rightarrow> string list" where
  "schema_files fs = map fst (filter qual (walk_list ''.'' ''.'' fs))"

text \<open>
  What the walk amounts to, stated without the walk.  \<open>strategy_of\<close> is the branch of the
  \<^verbatim>\<open>switch\<close> a path selects, called as the walker calls it: the plugin strategy on the file
  and its directory, or the generic strategy with the directory of the load configuration
  set.  \<open>generate_all\<close> takes a list of files in order: the strategy of each is run, its result
  rendered and written at the output path, and the first failure ends it.  \<open>outcome\<close> is what
  a walk leaves to its caller: the failure, or the collector.
\<close>

definition strategy_of ::
  "('i, 'v, 'l) env \<Rightarrow> string \<Rightarrow> node \<Rightarrow> load_Config \<Rightarrow> string \<Rightarrow> failure + tsFile \<times> string" where
  "strategy_of E root in_fs cfg path =
     (if strings_Contains path ''public/app/plugins''
      then plugin_strategy E in_fs path (filepath_Dir path)
      else generic_strategy E (cfg\<lparr>Dir := filepath_Join [root, filepath_Dir path]\<rparr>) path)"

fun generate_all ::
  "('i, 'v, 'l) env \<Rightarrow> string \<Rightarrow> node \<Rightarrow> load_Config \<Rightarrow> string list \<Rightarrow> overlay \<Rightarrow> failure + overlay" where
  "generate_all E root in_fs cfg [] out = Inr out"
| "generate_all E root in_fs cfg (path # paths) out =
     (case strategy_of E root in_fs cfg path of
        Inl fl \<Rightarrow> Inl fl
      | Inr (f, b) \<Rightarrow>
          generate_all E root in_fs cfg paths
            (out(filepath_Join [root, strings_Replace path ''.cue'' ''.gen.ts'']
                   \<mapsto> tsTemplate_Execute (f\<lparr>Body := b\<rparr>))))"

definition outcome :: "failure option \<times> gen_state \<Rightarrow> failure + overlay" where
  "outcome rs = (case fst rs of None \<Rightarrow> Inr (outfiles (snd rs)) | Some fl \<Rightarrow> Inl fl)"

text \<open>
  A tree is readable when every directory can be listed, and sorted when the entries of every
  directory are in strictly increasing order of their names, the order of \<^verbatim>\<open>ReadDir\<close>.
  \<open>elements\<close> are the path elements of a path; lists of them are compared lexically.
\<close>

fun readable :: "node \<Rightarrow> bool" and readable_entries :: "(string \<times> node) list \<Rightarrow> bool" where
  "readable (File c) = True"
| "readable (BadDirectory e) = False"
| "readable (Directory es) = readable_entries es"
| "readable_entries [] = True"
| "readable_entries ((n, c) # es) = (readable c \<and> readable_entries es)"

fun sorted_node :: "node \<Rightarrow> bool" and sorted_entries :: "(string \<times> node) list \<Rightarrow> bool" where
  "sorted_node (File c) = True"
| "sorted_node (BadDirectory e) = True"
| "sorted_node (Directory es) = (sorted_wrt (<) (map fst es) \<and> sorted_entries es)"
| "sorted_entries [] = True"
| "sorted_entries ((n, c) # es) = (sorted_node c \<and> sorted_entries es)"

definition elements :: "string \<Rightarrow> string list" where
  "elements path = strings_Split path (CHR ''/'')"

text \<open>
  Two results agree up to the message of an error of \<^verbatim>\<open>cue/errors\<close>.
\<close>

definition same_step :: "failure option \<times> 'st \<Rightarrow> failure option \<times> 'st \<Rightarrow> bool" where
  "same_step a b = (snd a = snd b \<and>
      (fst a = fst b \<or> (\<exists>pos m1 m2. fst a = Some (Error (CueErr pos m1))
                                  \<and> fst b = Some (Error (CueErr pos m2)))))"

section \<open>Examples\<close>

definition quoted :: "string \<Rightarrow> string" where
  "quoted s = dquote # s @ [dquote]"

definition unlisted_import :: ImportSpec where
  "unlisted_import = \<lparr>Name = None, Path_Value = quoted ''some/unlisted/pkg'', Pos = 7\<rparr>"

definition demo_imports :: "ImportSpec list" where
  "demo_imports =
     [\<lparr>Name = None, Path_Value = quoted ''github.com/grafana/thema'', Pos = 1\<rparr>,
      \<lparr>Name = Some ''ui'', Path_Value = quoted schemasPath, Pos = 2\<rparr>,
      \<lparr>Name = Some ''other'', Path_Value = quoted schemasPath, Pos = 3\<rparr>]"

definition demo_range :: "string list" where
  "demo_range = [schemasPath, ''github.com/grafana/thema'']"

text \<open>
  A schema tree: the module file and a vendored package under \<^verbatim>\<open>cue.mod\<close>, a directory
  with two schema files, and the schema of a panel plugin.
\<close>

definition demo_fs :: node where
  "demo_fs = Directory
     [(''cue.mod'', Directory
         [(''module.cue'', File (Inr ''module: m'')),
          (''pkg'', Directory [(''x.cue'', File (Inr ''X''))])]),
      (''kinds'', Directory [(''a.cue'', File (Inr ''A'')), (''b.cue'', File (Inr ''B''))]),
      (''public'', Directory [(''app'', Directory [(''plugins'', Directory
         [(''p'', Directory [(''models.cue'', File (Inr ''P''))])])])])]"

text \<open>
  An environment in which every directory resolves to one instance, named by the directory
  of the load configuration, and every library call succeeds.
\<close>

definition demo_env :: "(string, string, string) env" where
  "demo_env =
     \<lparr>load_Instances = (\<lambda>cfg. [Dir cfg]),
      Instance_Err = (\<lambda>i. None),
      ctx_BuildInstance = (\<lambda>i. i),
      cuetsy_Generate = (\<lambda>v. Inr (''body of '' @ v)),
      parser_ParseFile = (\<lambda>n src. (Some \<lparr>ast_File.Imports = demo_imports\<rparr>, None)),
      module_String = (\<lambda>b. Inr ''github.com/grafana/grafana''),
      thema_BindLineage = (\<lambda>v. Inr v),
      thema_LatestVersion = (\<lambda>l. (0, 0)),
      thema_SchemaP = (\<lambda>l v. l),
      grafana_CueSchemaFS = demo_fs,
      thema_CueFS = Directory [(''thema.cue'', File (Inr ''T''))],
      thema_CueJointFS = Directory [(''thema.cue'', File (Inr ''T''))],
      fmt_q = quoted,
      importMap_range = demo_range,
      errors_Details = Error_string\<rparr>"

definition demo_st :: gen_state where
  "demo_st =
     \<lparr>seen = {},
      clcfg = \<lparr>Overlay = Map.empty, ModuleRoot = prefix_root,
                Module = ''github.com/grafana/grafana'', Dir = [], Package = []\<rparr>,
      outfiles = Map.empty,
      dispatched = []\<rparr>"

text \<open>The parser reports a syntax error and returns the file it could read.\<close>

definition syntax_error_env :: "(string, string, string) env" where
  "syntax_error_env =
     demo_env\<lparr>parser_ParseFile :=
       (\<lambda>n src. (Some \<lparr>ast_File.Imports = []\<rparr>, Some (n @ '':3:1: expected operand'')))\<rparr>"

text \<open>A schema file in a directory whose name has \<^verbatim>\<open>.cue\<close> in it.\<close>

definition dotted_dir_env :: "(string, string, string) env" where
  "dotted_dir_env =
     demo_env\<lparr>grafana_CueSchemaFS :=
       Directory [(''a.cue.d'', Directory [(''models.cue'', File (Inr ''A''))])]\<rparr>"

text \<open>Instance resolution finds nothing.\<close>

definition no_instance_env :: "(string, string, string) env" where
  "no_instance_env = demo_env\<lparr>load_Instances := (\<lambda>cfg. [])\<rparr>"




section \<open>Properties of the import loop\<close>

lemma firsts_filter: "firsts P key S xs = firsts (\<lambda>_. True) key S (filter P xs)"
  by (induction xs arbitrary: S) auto

lemma firsts_index:
  "firsts (\<lambda>_. True) key S xs =
     map (nth xs) (filter (\<lambda>i. key (xs ! i) \<notin> S \<union> key ` set (take i xs)) [0..<length xs])"
proof (induction xs arbitrary: S)
  case Nil
  show ?case by simp
next
  case (Cons x xs)
  have upt: "[0..<length (x # xs)] = 0 # map Suc [0..<length xs]"
    by (simp add: upt_conv_Cons map_Suc_upt del: upt_Suc)
  have tl: "map (nth (x # xs))
              (filter (\<lambda>i. key ((x # xs) ! i) \<notin> S \<union> key ` set (take i (x # xs)))
                 (map Suc [0..<length xs])) =
            firsts (\<lambda>_. True) key (insert (key x) S) xs"
    by (simp add: Cons.IH filter_map o_def conj_ac)
  show ?case
  proof (cases "key x \<in> S")
    case True
    then show ?thesis
      unfolding upt using tl by (simp add: insert_absorb)
  next
    case False
    then show ?thesis
      unfolding upt using tl by simp
  qed
qed

lemma firsts_first_by: "firsts P key {} xs = first_by key (filter P xs)"
  by (simp add: firsts_filter [of P] firsts_index first_by_def)

lemma dom_importMap: "dom importMap = {''github.com/grafana/thema'', schemasPath}"
  by (auto simp: importMap_def importMap_entries_def schemasPath_def split: if_splits)

lemma find_None_iff_all: "find P xs = None \<longleftrightarrow> (\<forall>x\<in>set xs. \<not> P x)"
  by (induction xs) auto

lemma sublist_Join_mem: "k \<in> set ks \<Longrightarrow> sublist (f k) (strings_Join (map f ks) sep)"
proof (induction ks)
  case Nil
  then show ?case by simp
next
  case (Cons e es)
  show ?case
  proof (cases es)
    case Nil
    with Cons.prems show ?thesis by simp
  next
    case (Cons e' es')
    show ?thesis
    proof (cases "k = e")
      case True
      then show ?thesis using Cons by simp
    next
      case False
      with Cons.prems have "k \<in> set es" by simp
      from Cons.IH [OF this] have "sublist (f k) (strings_Join (map f es) sep)" .
      then have "sublist (f k) ((f e @ sep) @ strings_Join (map f es) sep)"
        unfolding sublist_def by (metis append.assoc)
      then show ?thesis using Cons by simp
    qed
  qed
qed

lemma import_loop_firsts:
  "\<forall>im\<in>set ims. ip_of im \<in> dom importMap \<Longrightarrow>
   import_loop q keys path ims (S, acc) =
     Inr (S \<union> ip_of ` set (filter (\<lambda>im. importMap_index (ip_of im) \<noteq> []) ims),
          acc @ map convertImport (firsts (\<lambda>im. importMap_index (ip_of im) \<noteq> []) ip_of S ims))"
proof (induction ims arbitrary: S acc)
  case Nil
  show ?case by simp
next
  case (Cons im ims)
  from Cons.prems obtain mp where mp: "importMap (ip_of im) = Some mp" by auto
  from Cons.prems have rest: "\<forall>im\<in>set ims. ip_of im \<in> dom importMap" by simp
  show ?case
    using mp Cons.IH [OF rest]
    by (auto simp: importMap_index_def Let_def)
qed

lemma import_loop_unknown:
  assumes "find (\<lambda>im. ip_of im \<notin> dom importMap) ims = Some im"
  shows "import_loop q keys path ims st =
           Inl (CueErr (Pos im) (import_not_allowed q keys path (ip_of im)))"
  using assms
proof (induction ims arbitrary: st)
  case Nil
  then show ?case by simp
next
  case (Cons a ims)
  obtain S acc where st: "st = (S, acc)" by (cases st)
  show ?case
  proof (cases "ip_of a \<in> dom importMap")
    case True
    with Cons.prems have "find (\<lambda>im. ip_of im \<notin> dom importMap) ims = Some im" by simp
    from Cons.IH [OF this] True show ?thesis
      unfolding st by (auto simp: Let_def)
  next
    case False
    with Cons.prems have "a = im" by simp
    with False show ?thesis unfolding st by (auto simp: Let_def domIff)
  qed
qed

text \<open>
  C1.  The claim: an import of an allow-listed path with a non-empty specifier and no alias
  gets the last segment of its path as identifier, and its package from the table.  The code
  does otherwise: \<^verbatim>\<open>convertImport\<close> assigns the last segment to \<open>Pkg\<close>, not to \<open>Ident\<close>.
  For the import of the schema package without an alias the identifier stays empty, and the
  package is the last segment of the literal, closing quote included, in place of
  \<^verbatim>\<open>@grafana/schema\<close>.
\<close>

theorem C1_unaliased_import_has_no_identifier:
  "import_loop q keys path [\<lparr>Name = None, Path_Value = quoted schemasPath, Pos = p\<rparr>] ({}, [])
     = Inr ({schemasPath}, [\<lparr>Ident = [], Pkg = ''schema'' @ [dquote]\<rparr>])"
  by (simp add: ip_of_def strings_Trim_def schemasPath_def importMap_def importMap_entries_def
      convertImport_def importMap_index_def Let_def quoted_def)

text \<open>
  C3.  When an import of the file is not a key of the table, the loop fails at the first such
  import, with an error at its position.  The message starts with the path of the file,
  has the import path as \<^verbatim>\<open>%q\<close> prints it, and has every key of the table, whatever the
  order in which \<^verbatim>\<open>range\<close> yields the keys.
\<close>

theorem C3_unknown_import_rejected:
  assumes unknown: "\<exists>im\<in>set ims. ip_of im \<notin> dom importMap"
    and keys: "set keys = dom importMap"
  shows "\<exists>im msg. find (\<lambda>im. ip_of im \<notin> dom importMap) ims = Some im
           \<and> import_loop q keys path ims st = Inl (CueErr (Pos im) msg)
           \<and> prefix path msg
           \<and> sublist (q (ip_of im)) msg
           \<and> (\<forall>k\<in>dom importMap. sublist k msg)"
proof -
  from unknown obtain im where im: "find (\<lambda>im. ip_of im \<notin> dom importMap) ims = Some im"
    by (cases "find (\<lambda>im. ip_of im \<notin> dom importMap) ims") (auto simp: find_None_iff_all)
  let ?msg = "import_not_allowed q keys path (ip_of im)"
  have 1: "import_loop q keys path ims st = Inl (CueErr (Pos im) ?msg)"
    by (rule import_loop_unknown [OF im])
  have 2: "prefix path ?msg" by (simp add: import_not_allowed_def)
  have 3: "sublist (q (ip_of im)) ?msg"
    unfolding import_not_allowed_def sublist_def by (metis append.assoc)
  have 4: "sublist k ?msg" if "k \<in> dom importMap" for k
  proof -
    from that keys have "k \<in> set keys" by simp
    from sublist_Join_mem [OF this, of "\<lambda>im. tab # im" "[newline]"]
    have "sublist (tab # k) (strings_Join (map (\<lambda>im. tab # im) keys) [newline])" .
    then have "sublist k (strings_Join (map (\<lambda>im. tab # im) keys) [newline])"
      unfolding sublist_def by (metis append.assoc append_Cons append_Nil)
    then show ?thesis
      unfolding import_not_allowed_def sublist_def by (metis append.assoc)
  qed
  from im 1 2 3 4 show ?thesis by blast
qed

theorem C3_unknown_import_rejected_witness:
  "\<exists>msg. import_loop quoted demo_range ''public/app/plugins/p/models.cue'' [unlisted_import] ({}, [])
            = Inl (CueErr 7 msg)
        \<and> sublist (quoted ''some/unlisted/pkg'') msg
        \<and> sublist ''github.com/grafana/thema'' msg \<and> sublist schemasPath msg"
proof -
  have ip: "ip_of unlisted_import = ''some/unlisted/pkg''"
    by (simp add: ip_of_def strings_Trim_def unlisted_import_def quoted_def)
  have h1: "\<exists>im\<in>set [unlisted_import]. ip_of im \<notin> dom importMap"
    by (simp add: ip dom_importMap schemasPath_def)
  have h2: "set demo_range = dom importMap"
    by (auto simp: dom_importMap demo_range_def)
  have pos: "Pos unlisted_import = 7"
    by (simp add: unlisted_import_def)
  from C3_unknown_import_rejected [OF h1 h2, of quoted "''public/app/plugins/p/models.cue''"
      "({}, [])"]
  show ?thesis
    by (simp add: ip pos dom_importMap schemasPath_def del: import_loop.simps) blast
qed

text \<open>
  C6.  When every import of the file is a key of the table, the loop yields the converted
  imports of exactly these: the imports whose specifier in the table is not empty, and of
  those the first to have its import path.  An import with an empty specifier yields
  nothing, neither does a later import of a path already imported.
\<close>

theorem C6_imports_dropped_and_deduplicated:
  assumes "\<forall>im\<in>set ims. ip_of im \<in> dom importMap"
  shows "\<exists>iseen. import_loop q keys path ims ({}, []) =
           Inr (iseen, map convertImport
                         (first_by ip_of (filter (\<lambda>im. importMap_index (ip_of im) \<noteq> []) ims)))"
  using import_loop_firsts [OF assms, of q keys path "{}" "[]"]
  by (simp add: firsts_first_by)

theorem C6_imports_dropped_and_deduplicated_witness:
  "\<exists>iseen. import_loop quoted demo_range ''public/app/plugins/p/models.cue'' demo_imports ({}, [])
             = Inr (iseen, [\<lparr>Ident = ''ui'', Pkg = ''@grafana/schema''\<rparr>])"
proof -
  have h: "\<forall>im\<in>set demo_imports. ip_of im \<in> dom importMap"
    unfolding dom_importMap by code_simp
  have e: "map convertImport
             (first_by ip_of (filter (\<lambda>im. importMap_index (ip_of im) \<noteq> []) demo_imports))
           = [\<lparr>Ident = ''ui'', Pkg = ''@grafana/schema''\<rparr>]"
    by code_simp
  from C6_imports_dropped_and_deduplicated [OF h, of quoted demo_range
      "''public/app/plugins/p/models.cue''"]
  show ?thesis unfolding e .
qed

section \<open>The walk as a list of calls\<close>

lemma run_calls_append:
  "run_calls fn (xs @ ys) st =
     (case run_calls fn xs st of (None, st') \<Rightarrow> run_calls fn ys st' | (Some f, st') \<Rightarrow> (Some f, st'))"
  by (induction xs arbitrary: st) (auto split: prod.splits option.splits)

lemma walk_list_err:
  "(p, d, e) \<in> set (walk_list name dname n) \<Longrightarrow> e \<noteq> Some SkipDir"
  "(p, d, e) \<in> set (walk_list_range name es) \<Longrightarrow> e \<noteq> Some SkipDir"
  by (induction name dname n and name es rule: walk_list_walk_list_range.induct) auto

lemma run_calls_no_skip:
  "no_skip fn \<Longrightarrow> \<forall>(p, d, e)\<in>set cs. e \<noteq> Some SkipDir \<Longrightarrow>
   fst (run_calls fn cs st) \<noteq> Some (Error SkipDir)"
proof (induction cs arbitrary: st)
  case Nil
  show ?case by simp
next
  case (Cons c cs)
  obtain p d e where c: "c = (p, d, e)" by (cases c)
  from Cons.prems have e: "e \<noteq> Some SkipDir" by (simp add: c)
  with Cons.prems(1) have "fst (fn p d e st) \<noteq> Some (Error SkipDir)"
    by (simp add: no_skip_def)
  with Cons show ?case
    by (auto simp: c split: prod.splits option.splits)
qed

lemma walkDir_run_calls:
  "no_skip fn \<Longrightarrow> walkDir fn name dname n st = run_calls fn (walk_list name dname n) st"
  "no_skip fn \<Longrightarrow> walkDir_range fn name es st = run_calls fn (walk_list_range name es) st"
proof (induction fn name dname n st and fn name es st rule: walkDir_walkDir_range.induct)
  case (1 fn name dname c st)
  show ?case by (auto split: prod.splits option.splits)
next
  case (2 fn name dname e st)
  then have a: "fst (fn name (Some (dname, True)) None st) \<noteq> Some (Error SkipDir)"
    and b: "\<And>st'. fst (fn name (Some (dname, True)) (Some (Err e)) st') \<noteq> Some (Error SkipDir)"
    by (simp_all add: no_skip_def)
  show ?case using a b[of "snd (fn name (Some (dname, True)) None st)"]
    by (auto split: prod.splits option.splits failure.splits goerr.splits)
next
  case (3 fn name dname es st)
  then have a: "fst (fn name (Some (dname, True)) None st) \<noteq> Some (Error SkipDir)"
    by (simp add: no_skip_def)
  show ?case using a 3
    by (auto split: prod.splits option.splits failure.splits goerr.splits)
next
  case (4 fn name st)
  show ?case by simp
next
  case (5 fn name n c es st)
  have ns: "fst (run_calls fn (walk_list (filepath_Join [name, n]) n c) st) \<noteq> Some (Error SkipDir)"
    by (rule run_calls_no_skip [OF 5(3)]) (auto dest: walk_list_err)
  show ?case using ns 5
    by (auto simp: run_calls_append split: prod.splits option.splits failure.splits goerr.splits)
qed


lemma import_loop_Inl: "import_loop q keys path ims st = Inl e \<Longrightarrow> \<exists>p m. e = CueErr p m"
proof (induction ims arbitrary: st)
  case Nil
  then show ?case by (cases st) simp
next
  case (Cons a ims)
  then show ?case
    by (cases st) (auto simp: Let_def split: option.splits if_splits)
qed

lemma plugin_strategy_no_skip: "plugin_strategy E fs path dir \<noteq> Inl (Error SkipDir)"
  by (auto simp: plugin_strategy_def Let_def
      split: sum.splits failure.splits option.splits prod.splits dest: import_loop_Inl)

lemma generic_strategy_no_skip: "generic_strategy E cfg path \<noteq> Inl (Error SkipDir)"
  by (auto simp: generic_strategy_def Let_def split: sum.splits list.splits)

lemma cuetsify_fn_no_skip: "no_skip (cuetsify_fn E root fs)"
  unfolding no_skip_def
proof (intro allI impI)
  fix path d err st
  assume "err \<noteq> Some SkipDir"
  then show "fst (cuetsify_fn E root fs path d err st) \<noteq> Some (Error SkipDir)"
    using plugin_strategy_no_skip [of E fs path "filepath_Dir path"]
      generic_strategy_no_skip [of E _ path]
    by (auto simp: cuetsify_fn_def Let_def split: option.splits prod.splits sum.splits)
qed

lemma cuetsify_run_calls:
  "cuetsify E root fs st =
     run_calls (cuetsify_fn E root fs) (walk_list ''.'' ''.'' fs) (st\<lparr>seen := {}\<rparr>)"
proof -
  have ns: "fst (run_calls (cuetsify_fn E root fs) (walk_list ''.'' ''.'' fs) (st\<lparr>seen := {}\<rparr>))
              \<noteq> Some (Error SkipDir)"
    by (rule run_calls_no_skip [OF cuetsify_fn_no_skip]) (auto dest: walk_list_err)
  have base: "filepath_Base ''.'' = ''.''" by (simp add: filepath_Base_def)
  show ?thesis
    using ns
    by (auto simp: cuetsify_def WalkDir_def fs_Stat_def base walkDir_run_calls [OF cuetsify_fn_no_skip]
        split: prod.splits option.splits failure.splits goerr.splits)
qed

lemma cuetsify_fn_step:
  assumes "cuetsify_fn E root fs p d e st = (r, st')"
  shows "if qual (p, d, e) \<and> filepath_Dir p \<notin> seen st
         then seen st' = insert (filepath_Dir p) (seen st)
              \<and> dispatched st' = dispatched st
                   @ [(p, if strings_Contains p ''public/app/plugins'' then Plugin else Generic)]
         else seen st' = seen st \<and> dispatched st' = dispatched st \<and> (r = None \<longrightarrow> st' = st)"
  using assms
  by (auto simp: cuetsify_fn_def qual_def Let_def split: option.splits prod.splits sum.splits if_splits)


lemma call_dir_simp: "call_dir (p, d, e) = filepath_Dir p"
  by (simp add: call_dir_def)

lemma run_calls_dispatched:
  "run_calls (cuetsify_fn E root fs) cs st = (r, st') \<Longrightarrow>
   \<exists>D. dispatched st' = dispatched st @ D
       \<and> prefix (map fst D) (map fst (firsts qual call_dir (seen st) cs))
       \<and> (r = None \<longrightarrow> map fst D = map fst (firsts qual call_dir (seen st) cs))"
proof (induction cs arbitrary: st)
  case Nil
  then show ?case by simp
next
  case (Cons c cs)
  obtain p d e where c: "c = (p, d, e)" by (cases c)
  obtain r1 st1 where fn: "cuetsify_fn E root fs p d e st = (r1, st1)"
    by (cases "cuetsify_fn E root fs p d e st")
  note step = cuetsify_fn_step [OF fn]
  show ?case
  proof (cases r1)
    case (Some f)
    with Cons.prems fn have "r = Some f" "st' = st1" by (simp_all add: c)
    with step show ?thesis by (auto simp: c call_dir_simp)
  next
    case None
    with Cons.prems fn have run: "run_calls (cuetsify_fn E root fs) cs st1 = (r, st')"
      by (simp add: c)
    from Cons.IH [OF run] obtain D where
      D: "dispatched st' = dispatched st1 @ D"
         "prefix (map fst D) (map fst (firsts qual call_dir (seen st1) cs))"
         "r = None \<longrightarrow> map fst D = map fst (firsts qual call_dir (seen st1) cs)"
      by blast
    show ?thesis
    proof (cases "qual (p, d, e) \<and> filepath_Dir p \<notin> seen st")
      case True
      with step D show ?thesis by (auto simp: c call_dir_simp)
    next
      case False
      with step None have "st1 = st" by auto
      with False D show ?thesis by (auto simp: c call_dir_simp)
    qed
  qed
qed

lemma first_by_map:
  assumes "\<And>x. g x = key (f x)"
  shows "first_by key (map f ys) = map f (first_by g ys)"
proof -
  have "filter (\<lambda>i. key (map f ys ! i) \<notin> key ` set (take i (map f ys))) [0..<length ys]
        = filter (\<lambda>i. g (ys ! i) \<notin> g ` set (take i ys)) [0..<length ys]"
    by (rule filter_cong) (auto simp: take_map assms image_iff)
  moreover have "map (nth (map f ys)) is = map f (map (nth ys) is)"
    if "set is \<subseteq> {0..<length ys}" for "is"
    using that by (induction "is") auto
  ultimately show ?thesis
    by (simp add: first_by_def)
qed

lemma cuetsify_dispatched:
  assumes "dispatched st = []" and "cuetsify E root fs st = (r, st')"
  shows "prefix (map fst (dispatched st')) (first_by filepath_Dir (schema_files fs))
         \<and> (r = None \<longrightarrow> map fst (dispatched st') = first_by filepath_Dir (schema_files fs))"
proof -
  from assms(2) have "run_calls (cuetsify_fn E root fs) (walk_list ''.'' ''.'' fs) (st\<lparr>seen := {}\<rparr>)
      = (r, st')"
    by (simp add: cuetsify_run_calls)
  from run_calls_dispatched [OF this] assms(1) show ?thesis
    by (auto simp: firsts_first_by schema_files_def first_by_map [of call_dir filepath_Dir fst] call_dir_def)
qed


section \<open>One file for each directory\<close>

lemma set_first_by: "set (first_by key xs) \<subseteq> set xs"
  by (auto simp: first_by_def)

lemma filepath_Dir_cue_mod:
  assumes "CHR ''/'' \<notin> set name"
  shows "filepath_Dir (''cue.mod/'' @ name) = ''cue.mod''"
proof -
  have "dropWhile (\<lambda>c. c \<noteq> CHR ''/'') (rev name @ rev ''cue.mod/'') = rev ''cue.mod/''"
    using assms by (subst dropWhile_append2) auto
  then have "filepath_Dir (''cue.mod/'' @ name) = filepath_Clean ''cue.mod/''"
    by (simp add: filepath_Dir_def)
  also have "\<dots> = ''cue.mod''" by code_simp
  finally show ?thesis .
qed

lemma dispatched_qualifies:
  assumes "dispatched st = []"
    and "p \<in> fst ` set (dispatched (snd (cuetsify E root fs st)))"
  shows "p \<in> set (schema_files fs)"
proof -
  from assms(2) have mem: "p \<in> set (map fst (dispatched (snd (cuetsify E root fs st))))"
    by (simp only: set_map)
  obtain r st' where run: "cuetsify E root fs st = (r, st')"
    by (cases "cuetsify E root fs st")
  from cuetsify_dispatched [OF assms(1) run]
  have "prefix (map fst (dispatched st')) (first_by filepath_Dir (schema_files fs))"
    by (rule conjunct1)
  then have "set (map fst (dispatched st')) \<subseteq> set (first_by filepath_Dir (schema_files fs))"
    by (rule set_mono_prefix)
  with mem have "p \<in> set (first_by filepath_Dir (schema_files fs))"
    unfolding run snd_conv by (rule subsetD [rotated])
  with set_first_by [of filepath_Dir "schema_files fs"] show ?thesis by (rule subsetD)
qed

lemma schema_files_not_excluded:
  assumes "p \<in> set (schema_files fs)"
  shows "\<not> exclude p"
proof -
  from assms obtain c where c: "qual c" "fst c = p"
    unfolding schema_files_def by auto
  obtain p' d e where "c = (p', d, e)" by (cases c)
  with c show ?thesis
    by (cases d) (auto simp: qual_def)
qed

text \<open>
  C4.  The claim: no file anywhere under \<^verbatim>\<open>cue.mod\<close> reaches a generation strategy.  The
  test of the code is \<^verbatim>\<open>filepath.Dir(path) == "cue.mod"\<close>, which holds for the files that
  are in \<^verbatim>\<open>cue.mod\<close> itself: those never reach the \<^verbatim>\<open>switch\<close>, whatever the tree and
  the environment.
\<close>

theorem C4_files_in_cue_mod_not_dispatched:
  assumes "dispatched st = []"
  shows "\<forall>name. CHR ''/'' \<notin> set name \<longrightarrow>
           ''cue.mod/'' @ name \<notin> fst ` set (dispatched (snd (cuetsify E root fs st)))"
proof (intro allI impI notI)
  fix name
  define p where "p = ''cue.mod/'' @ name"
  assume name: "CHR ''/'' \<notin> set name"
    and "''cue.mod/'' @ name \<in> fst ` set (dispatched (snd (cuetsify E root fs st)))"
  then have "p \<in> fst ` set (dispatched (snd (cuetsify E root fs st)))"
    by (simp only: p_def)
  then have "\<not> exclude p"
    by (rule schema_files_not_excluded [OF dispatched_qualifies [OF assms]])
  then have "filepath_Dir p \<noteq> ''cue.mod''"
    unfolding exclude_def by blast
  with filepath_Dir_cue_mod [OF name] show False
    by (simp only: p_def)
qed

theorem C4_files_in_cue_mod_not_dispatched_witness:
  "''cue.mod/module.cue'' \<notin> fst ` set (dispatched (snd (cuetsify demo_env ''out'' demo_fs demo_st)))"
proof -
  have h: "dispatched demo_st = []"
    by (simp add: demo_st_def)
  have n: "CHR ''/'' \<notin> set ''module.cue''"
    by simp
  from C4_files_in_cue_mod_not_dispatched [OF h, of demo_env "''out''" demo_fs] n
  have "''cue.mod/'' @ ''module.cue'' \<notin> fst ` set (dispatched (snd (cuetsify demo_env ''out'' demo_fs demo_st)))"
    by blast
  then show ?thesis by simp
qed

text \<open>
  A schema file in a directory below \<^verbatim>\<open>cue.mod\<close> is not excluded: in the example tree the
  file \<^verbatim>\<open>cue.mod/pkg/x.cue\<close> goes to the generic strategy.
\<close>

theorem C4_nested_file_dispatched:
  "fs_Stat demo_fs ''cue.mod/pkg/x.cue'' = Some (File (Inr ''X''))
   \<and> prefix ''cue.mod/'' ''cue.mod/pkg/x.cue''
   \<and> (''cue.mod/pkg/x.cue'', Generic)
        \<in> set (dispatched (snd (cuetsify demo_env ''out'' demo_fs demo_st)))"
  by code_simp

section \<open>The order of the map does not reach the output\<close>

lemma import_loop_range:
  "import_loop q k1 path ims st = import_loop q k2 path ims st
   \<or> (\<exists>pos m1 m2. import_loop q k1 path ims st = Inl (CueErr pos m1)
                  \<and> import_loop q k2 path ims st = Inl (CueErr pos m2))"
proof (induction ims arbitrary: st)
  case Nil
  show ?case by (cases st) simp
next
  case (Cons a ims)
  obtain S acc where st: "st = (S, acc)" by (cases st)
  show ?case
  proof (cases "importMap (ip_of a)")
    case None
    then show ?thesis by (simp add: st)
  next
    case (Some mp)
    show ?thesis
      using Cons.IH [of "(insert (ip_of a) S, acc @ [convertImport a])"] Cons.IH [of "(S, acc)"]
      by (simp add: st Some Let_def)
  qed
qed

lemma modname_fn_range: "modname_fn (E\<lparr>importMap_range := k\<rparr>) = modname_fn E"
  by (intro ext)
    (simp add: modname_fn_def Let_def
      cong: sum.case_cong prod.case_cong option.case_cong if_cong)

lemma loader_Config_range: "loader_Config (E\<lparr>importMap_range := k\<rparr>) = loader_Config E"
  by (intro ext)
    (simp add: loader_Config_def modname_fn_range Let_def
      cong: prod.case_cong option.case_cong if_cong)

lemma loadInstancesWithThema_range:
  "loadInstancesWithThema (E\<lparr>importMap_range := k\<rparr>) = loadInstancesWithThema E"
  by (intro ext)
    (simp add: loadInstancesWithThema_def loader_Config_range
      cong: sum.case_cong list.case_cong option.case_cong)

lemma generic_strategy_range: "generic_strategy (E\<lparr>importMap_range := k\<rparr>) = generic_strategy E"
  by (intro ext)
    (simp add: generic_strategy_def Let_def cong: sum.case_cong list.case_cong if_cong)

lemma plugin_strategy_range:
  "plugin_strategy (E\<lparr>importMap_range := k1\<rparr>) fs path dir
     = plugin_strategy (E\<lparr>importMap_range := k2\<rparr>) fs path dir
   \<or> (\<exists>pos m1 m2.
         plugin_strategy (E\<lparr>importMap_range := k1\<rparr>) fs path dir = Inl (Error (CueErr pos m1))
       \<and> plugin_strategy (E\<lparr>importMap_range := k2\<rparr>) fs path dir = Inl (Error (CueErr pos m2)))"
proof (cases "loadInstancesWithThema E fs dir ''grafanaschema''")
  case (Inl f)
  then show ?thesis
    by (simp add: plugin_strategy_def loadInstancesWithThema_range split: failure.splits)
next
  case (Inr inst)
  show ?thesis
  proof (cases "fst (parser_ParseFile E (filepath_Base path)
                      (case fs_Open fs path of Inl _ \<Rightarrow> None | Inr h \<Rightarrow> Some h))")
    case None
    then show ?thesis
      by (simp add: plugin_strategy_def loadInstancesWithThema_range Inr)
  next
    case (Some pf)
    from import_loop_range [of "fmt_q E" k1 path "ast_File.Imports pf" "({}, [])" k2]
    consider (same) "import_loop (fmt_q E) k1 path (ast_File.Imports pf) ({}, [])
                       = import_loop (fmt_q E) k2 path (ast_File.Imports pf) ({}, [])"
      | (err) pos m1 m2 where
          "import_loop (fmt_q E) k1 path (ast_File.Imports pf) ({}, []) = Inl (CueErr pos m1)"
          "import_loop (fmt_q E) k2 path (ast_File.Imports pf) ({}, []) = Inl (CueErr pos m2)"
      by blast
    then show ?thesis
    proof cases
      case same
      then show ?thesis
        by (simp add: plugin_strategy_def loadInstancesWithThema_range Inr Some Let_def
            cong: sum.case_cong prod.case_cong)
    next
      case err
      then show ?thesis
        by (simp add: plugin_strategy_def loadInstancesWithThema_range Inr Some)
    qed
  qed
qed

lemma cuetsify_fn_range:
  "same_step (cuetsify_fn (E\<lparr>importMap_range := k1\<rparr>) root fs path d err st)
             (cuetsify_fn (E\<lparr>importMap_range := k2\<rparr>) root fs path d err st)"
  using plugin_strategy_range [of k1 E fs path "filepath_Dir path" k2]
  by (auto simp: same_step_def cuetsify_fn_def generic_strategy_range Let_def
      split: option.splits prod.splits sum.splits)

lemma run_calls_range:
  assumes "\<And>path d err st. same_step (f1 path d err st) (f2 path d err st)"
  shows "same_step (run_calls f1 cs st) (run_calls f2 cs st)"
proof (induction cs arbitrary: st)
  case Nil
  show ?case by (simp add: same_step_def)
next
  case (Cons c cs)
  obtain p d e where c: "c = (p, d, e)" by (cases c)
  from assms [of p d e st] Cons.IH [of "snd (f1 p d e st)"] show ?case
    by (auto simp: c same_step_def split: prod.splits option.splits)
qed

lemma CuetsifyPlugins_range:
  "map_sum (\<lambda>_. ()) id (CuetsifyPlugins (E\<lparr>importMap_range := k1\<rparr>) root)
     = map_sum (\<lambda>_. ()) id (CuetsifyPlugins (E\<lparr>importMap_range := k2\<rparr>) root)"
proof -
  obtain ro ov where ov: "toOverlay (fmt_q E) prefix_root (grafana_CueSchemaFS E) Map.empty = (ro, ov)"
    by (cases "toOverlay (fmt_q E) prefix_root (grafana_CueSchemaFS E) Map.empty")
  define st0 where "st0 = \<lparr>seen = {}, clcfg = \<lparr>Overlay = ov, ModuleRoot = prefix_root,
      Module = ''github.com/grafana/grafana'', Dir = [], Package = []\<rparr>,
      outfiles = Map.empty, dispatched = []\<rparr>"
  obtain r1 s1 where c1: "cuetsify (E\<lparr>importMap_range := k1\<rparr>) root (grafana_CueSchemaFS E) st0 = (r1, s1)"
    by (cases "cuetsify (E\<lparr>importMap_range := k1\<rparr>) root (grafana_CueSchemaFS E) st0")
  obtain r2 s2 where c2: "cuetsify (E\<lparr>importMap_range := k2\<rparr>) root (grafana_CueSchemaFS E) st0 = (r2, s2)"
    by (cases "cuetsify (E\<lparr>importMap_range := k2\<rparr>) root (grafana_CueSchemaFS E) st0")
  have "same_step (cuetsify (E\<lparr>importMap_range := k1\<rparr>) root (grafana_CueSchemaFS E) st0)
                  (cuetsify (E\<lparr>importMap_range := k2\<rparr>) root (grafana_CueSchemaFS E) st0)"
    unfolding cuetsify_run_calls by (rule run_calls_range) (rule cuetsify_fn_range)
  then have s: "s1 = s2"
    and r: "r1 = r2 \<or> (\<exists>pos m1 m2. r1 = Some (Error (CueErr pos m1)) \<and> r2 = Some (Error (CueErr pos m2)))"
    by (simp_all add: same_step_def c1 c2)
  show ?thesis
  proof (cases ro)
    case (Some f)
    then show ?thesis by (simp add: CuetsifyPlugins_def ov)
  next
    case None
    have "CuetsifyPlugins (E\<lparr>importMap_range := k1\<rparr>) root
            = (case r1 of Some (Error e) \<Rightarrow> Inl (Error (Err (errors_Details E e)))
               | Some (Panic p) \<Rightarrow> Inl (Panic p) | None \<Rightarrow> Inr (outfiles s1))"
      by (simp add: CuetsifyPlugins_def ov None st0_def [symmetric] c1
          split: option.splits failure.splits)
    moreover have "CuetsifyPlugins (E\<lparr>importMap_range := k2\<rparr>) root
            = (case r2 of Some (Error e) \<Rightarrow> Inl (Error (Err (errors_Details E e)))
               | Some (Panic p) \<Rightarrow> Inl (Panic p) | None \<Rightarrow> Inr (outfiles s2))"
      by (simp add: CuetsifyPlugins_def ov None st0_def [symmetric] c2
          split: option.splits failure.splits)
    ultimately show ?thesis using r s
      by (auto split: option.splits failure.splits)
  qed
qed

section \<open>Paths of a well-formed tree\<close>

lemma Split_no_sep: "c \<notin> set s \<Longrightarrow> strings_Split s c = [s]"
  by (induction s) auto

lemma Split_append: "c \<notin> set a \<Longrightarrow> strings_Split (a @ c # b) c = a # strings_Split b c"
  by (induction a) auto

lemma Join_Cons: "ns \<noteq> [] \<Longrightarrow> strings_Join (n # ns) sep = n @ sep @ strings_Join ns sep"
  by (cases ns) auto

lemma Join_snoc: "ns \<noteq> [] \<Longrightarrow> strings_Join (ns @ [n]) sep = strings_Join ns sep @ sep @ n"
  by (induction ns sep rule: strings_Join.induct) auto

lemma Split_Join:
  "ns \<noteq> [] \<Longrightarrow> \<forall>n\<in>set ns. CHR ''/'' \<notin> set n \<Longrightarrow>
   strings_Split (strings_Join ns ''/'') (CHR ''/'') = ns"
proof (induction ns)
  case Nil
  then show ?case by simp
next
  case (Cons n ns)
  show ?case
  proof (cases "ns = []")
    case True
    with Cons.prems show ?thesis by (simp add: Split_no_sep)
  next
    case False
    with Cons have "strings_Split (strings_Join ns ''/'') (CHR ''/'') = ns" by simp
    moreover from Cons.prems have "CHR ''/'' \<notin> set n" by simp
    ultimately show ?thesis
      using False Split_append [of "CHR ''/''" n "strings_Join ns ''/''"]
      by (simp add: Join_Cons)
  qed
qed

lemma clean_elem_valid: "valid_name n \<Longrightarrow> clean_elem r out n = n # out"
  by (simp add: clean_elem_def valid_name_def)

lemma foldl_clean_valid:
  "\<forall>n\<in>set ns. valid_name n \<Longrightarrow> foldl (clean_elem r) out ns = rev ns @ out"
  by (induction ns arbitrary: out) (auto simp: clean_elem_valid)

lemma Join_starts: "\<exists>t. strings_Join (n # ns) sep = n @ t"
  by (cases ns) auto

lemma Join_hd:
  assumes "ns \<noteq> []" and "\<forall>n\<in>set ns. valid_name n"
  shows "strings_Join ns ''/'' \<noteq> [] \<and> hd (strings_Join ns ''/'') \<noteq> CHR ''/''"
proof -
  from assms(1) obtain n ns' where ns: "ns = n # ns'" by (cases ns) auto
  with assms(2) have "valid_name n" by simp
  then have n: "n \<noteq> []" and "CHR ''/'' \<notin> set n"
    by (simp_all add: valid_name_def)
  then have "hd n \<in> set n" by simp
  with \<open>CHR ''/'' \<notin> set n\<close> have h: "hd n \<noteq> CHR ''/''" by metis
  from Join_starts [of n ns' "''/''"] obtain t where "strings_Join ns ''/'' = n @ t"
    unfolding ns by blast
  with n h show ?thesis by simp
qed

lemma Clean_Join:
  assumes "ns \<noteq> []" and "\<forall>n\<in>set ns. valid_name n"
  shows "filepath_Clean (strings_Join ns ''/'') = strings_Join ns ''/''"
proof -
  from assms have s: "strings_Split (strings_Join ns ''/'') (CHR ''/'') = ns"
    by (intro Split_Join) (auto simp: valid_name_def)
  from Join_hd [OF assms] assms show ?thesis
    by (simp add: filepath_Clean_def s foldl_clean_valid Let_def)
qed

lemma Join_child:
  assumes "\<forall>x\<in>set ns. valid_name x" and "valid_name n"
  shows "filepath_Join [path_of ns, n] = path_of (ns @ [n])"
proof (cases "ns = []")
  case True
  have "strings_Split (''./'' @ n) (CHR ''/'') = [''.'', n]"
    using assms(2) by (simp add: valid_name_def Split_no_sep)
  then have "filepath_Clean (''./'' @ n) = n"
    using assms(2) by (simp add: filepath_Clean_def Let_def clean_elem_def valid_name_def)
  with True show ?thesis
    by (simp add: filepath_Join_def path_of_def)
next
  case False
  from assms False have "filepath_Clean (strings_Join (ns @ [n]) ''/'') = strings_Join (ns @ [n]) ''/''"
    by (intro Clean_Join) auto
  moreover from Join_hd [OF False assms(1)] have "strings_Join ns ''/'' \<noteq> []" by simp
  ultimately show ?thesis
    using False by (simp add: filepath_Join_def path_of_def Join_snoc)
qed




lemma walk_list_shape:
  "wf_node n \<Longrightarrow> name = path_of ns \<Longrightarrow> \<forall>x\<in>set ns. valid_name x \<Longrightarrow>
   (p, d, e) \<in> set (walk_list name dname n) \<Longrightarrow>
     \<exists>ms node. p = path_of (ns @ ms) \<and> (\<forall>x\<in>set ms. valid_name x)
        \<and> fs_descend n ms = Some node \<and> d = Some (last (dname # ms), IsDir node)"
  "wf_entries es \<Longrightarrow> distinct (map fst es) \<Longrightarrow> name = path_of ns \<Longrightarrow>
   \<forall>x\<in>set ns. valid_name x \<Longrightarrow> (p, d, e) \<in> set (walk_list_range name es) \<Longrightarrow>
     \<exists>m c ms node. (m, c) \<in> set es \<and> p = path_of (ns @ m # ms) \<and> (\<forall>x\<in>set ms. valid_name x)
        \<and> valid_name m \<and> fs_descend c ms = Some node \<and> d = Some (last (m # ms), IsDir node)"
proof (induction name dname n and name es arbitrary: ns p d e and ns p d e
    rule: walk_list_walk_list_range.induct)
  case (1 name dname c)
  then have "p = path_of (ns @ []) \<and> (\<forall>x\<in>set []. valid_name x)
      \<and> fs_descend (File c) [] = Some (File c) \<and> d = Some (last (dname # []), IsDir (File c))"
    by simp
  then show ?case by blast
next
  case (2 name dname err)
  then have "p = path_of (ns @ []) \<and> (\<forall>x\<in>set []. valid_name x)
      \<and> fs_descend (BadDirectory err) [] = Some (BadDirectory err)
      \<and> d = Some (last (dname # []), IsDir (BadDirectory err))"
    by auto
  then show ?case by blast
next
  case (3 name dname es)
  from "3.prems"(4) consider (here) "(p, d, e) = (name, Some (dname, True), None)"
    | (below) "(p, d, e) \<in> set (walk_list_range name es)"
    by auto
  then show ?case
  proof cases
    case here
    with "3.prems" have "p = path_of (ns @ []) \<and> (\<forall>x\<in>set []. valid_name x)
      \<and> fs_descend (Directory es) [] = Some (Directory es)
      \<and> d = Some (last (dname # []), IsDir (Directory es))"
      by simp
    then show ?thesis by blast
  next
    case below
    from "3.prems"(1) have wf: "wf_entries es" and dist: "distinct (map fst es)" by simp_all
    from "3.IH" [OF wf dist "3.prems"(2,3) below]
    obtain m c ms node where mc: "(m, c) \<in> set es" and p: "p = path_of (ns @ m # ms)"
      and ms: "\<forall>x\<in>set ms. valid_name x" and m: "valid_name m"
      and node: "fs_descend c ms = Some node" and d: "d = Some (last (m # ms), IsDir node)"
      by blast
    from mc dist have "map_of es m = Some c" by simp
    with node have "fs_descend (Directory es) (m # ms) = Some node" by simp
    moreover from d have "d = Some (last (dname # m # ms), IsDir node)" by simp
    ultimately have "p = path_of (ns @ (m # ms)) \<and> (\<forall>x\<in>set (m # ms). valid_name x)
      \<and> fs_descend (Directory es) (m # ms) = Some node
      \<and> d = Some (last (dname # (m # ms)), IsDir node)"
      using p ms m by simp
    then show ?thesis by blast
  qed
next
  case (4 name)
  then show ?case by simp
next
  case (5 name n c es)
  from "5.prems"(1) have n: "valid_name n" and wfc: "wf_node c" and wfes: "wf_entries es"
    by simp_all
  from "5.prems"(2) have dist: "distinct (map fst es)" by simp
  from "5.prems"(5) consider (first) "(p, d, e) \<in> set (walk_list (filepath_Join [name, n]) n c)"
    | (rest) "(p, d, e) \<in> set (walk_list_range name es)"
    by auto
  then show ?case
  proof cases
    case first
    have nm: "filepath_Join [name, n] = path_of (ns @ [n])"
      unfolding "5.prems"(3) by (rule Join_child [OF "5.prems"(4) n])
    have v: "\<forall>x\<in>set (ns @ [n]). valid_name x" using "5.prems"(4) n by simp
    from "5.IH"(1) [OF wfc nm v first]
    obtain ms node where "p = path_of ((ns @ [n]) @ ms)" "\<forall>x\<in>set ms. valid_name x"
      "fs_descend c ms = Some node" "d = Some (last (n # ms), IsDir node)"
      by blast
    with n have "(n, c) \<in> set ((n, c) # es) \<and> p = path_of (ns @ n # ms) \<and> (\<forall>x\<in>set ms. valid_name x)
        \<and> valid_name n \<and> fs_descend c ms = Some node \<and> d = Some (last (n # ms), IsDir node)"
      by simp
    then show ?thesis by blast
  next
    case rest
    from "5.IH"(2) [OF wfes dist "5.prems"(3,4) rest]
    obtain m c' ms node where "(m, c') \<in> set es" "p = path_of (ns @ m # ms)"
      "\<forall>x\<in>set ms. valid_name x" "valid_name m" "fs_descend c' ms = Some node"
      "d = Some (last (m # ms), IsDir node)"
      by blast
    then have "(m, c') \<in> set ((n, c) # es) \<and> p = path_of (ns @ m # ms) \<and> (\<forall>x\<in>set ms. valid_name x)
        \<and> valid_name m \<and> fs_descend c' ms = Some node \<and> d = Some (last (m # ms), IsDir node)"
      by simp
    then show ?thesis by blast
  qed
qed

section \<open>More than one instance\<close>

lemma cuetsify_fn_clcfg:
  assumes "cuetsify_fn E root fs p d e st = (r, st')"
  shows "(clcfg st')\<lparr>Dir := x\<rparr> = (clcfg st)\<lparr>Dir := x\<rparr>"
  using assms
  by (auto simp: cuetsify_fn_def Let_def split: option.splits prod.splits sum.splits if_splits)










section \<open>The first file of each directory\<close>

lemma readable_calls:
  "readable n \<Longrightarrow> (p, d, e) \<in> set (walk_list name dname n) \<Longrightarrow> e = None \<and> d \<noteq> None"
  "readable_entries es \<Longrightarrow> (p, d, e) \<in> set (walk_list_range name es) \<Longrightarrow> e = None \<and> d \<noteq> None"
  by (induction name dname n and name es rule: walk_list_walk_list_range.induct) auto

lemma strategy_of_cfg:
  assumes "\<And>x. cfg'\<lparr>Dir := x\<rparr> = cfg\<lparr>Dir := x\<rparr>"
  shows "strategy_of E root fs cfg' path = strategy_of E root fs cfg path"
  by (simp add: strategy_of_def assms)

lemma generate_all_cfg:
  assumes "\<And>x. cfg'\<lparr>Dir := x\<rparr> = cfg\<lparr>Dir := x\<rparr>"
  shows "generate_all E root fs cfg' paths out = generate_all E root fs cfg paths out"
  by (induction paths arbitrary: out)
     (simp_all add: strategy_of_cfg [OF assms] cong: sum.case_cong)

lemma cuetsify_fn_skip:
  assumes "\<not> (qual (p, Some (dn, isdir), None) \<and> filepath_Dir p \<notin> seen st)"
  shows "cuetsify_fn E root fs p (Some (dn, isdir)) None st = (None, st)"
  using assms by (auto simp: cuetsify_fn_def qual_def Let_def)

lemma cuetsify_fn_route:
  assumes "qual (p, Some (dn, isdir), None)" and "filepath_Dir p \<notin> seen st"
    and "cuetsify_fn E root fs p (Some (dn, isdir)) None st = (r, st')"
  shows "case strategy_of E root fs (clcfg st) p of
           Inl fl \<Rightarrow> r = Some fl
         | Inr (f, b) \<Rightarrow> r = None
             \<and> outfiles st' = (outfiles st)(filepath_Join [root, strings_Replace p ''.cue'' ''.gen.ts'']
                                  \<mapsto> tsTemplate_Execute (f\<lparr>Body := b\<rparr>))"
proof -
  from assms(1) have g: "\<not> isdir" "filepath_Ext dn = ''.cue''" "\<not> exclude p"
    by (simp_all add: qual_def)
  show ?thesis
  proof (cases "strategy_of E root fs (clcfg st) p")
    case (Inl fl)
    with assms(2,3) g show ?thesis
      by (auto simp: cuetsify_fn_def strategy_of_def Let_def split: if_splits)
  next
    case (Inr fb)
    obtain f b where fb: "fb = (f, b)" by (cases fb)
    from Inr assms(2,3) g show ?thesis
      unfolding fb by (auto simp: cuetsify_fn_def strategy_of_def Let_def split: if_splits)
  qed
qed

lemma run_calls_generate:
  assumes "\<forall>(p, d, e)\<in>set cs. e = None \<and> d \<noteq> None"
  shows "outcome (run_calls (cuetsify_fn E root fs) cs st)
           = generate_all E root fs (clcfg st) (map fst (firsts qual call_dir (seen st) cs)) (outfiles st)"
  using assms
proof (induction cs arbitrary: st)
  case Nil
  show ?case by (simp add: outcome_def)
next
  case (Cons c cs)
  from Cons.prems obtain p dn isdir where c: "c = (p, Some (dn, isdir), None)"
    by (cases c) auto
  from Cons.prems have rest: "\<forall>(p, d, e)\<in>set cs. e = None \<and> d \<noteq> None" by simp
  show ?case
  proof (cases "qual c \<and> filepath_Dir p \<notin> seen st")
    case False
    then have "cuetsify_fn E root fs p (Some (dn, isdir)) None st = (None, st)"
      unfolding c by (rule cuetsify_fn_skip)
    with False Cons.IH [OF rest, of st] show ?thesis
      by (auto simp: c call_dir_simp)
  next
    case True
    obtain r st' where fn: "cuetsify_fn E root fs p (Some (dn, isdir)) None st = (r, st')"
      by (cases "cuetsify_fn E root fs p (Some (dn, isdir)) None st")
    from True have q: "qual (p, Some (dn, isdir), None)" and u: "filepath_Dir p \<notin> seen st"
      by (simp_all add: c)
    note route = cuetsify_fn_route [OF q u fn]
    from cuetsify_fn_step [OF fn] q u have seen': "seen st' = insert (filepath_Dir p) (seen st)"
      by simp
    note cfg = cuetsify_fn_clcfg [OF fn]
    have fs: "firsts qual call_dir (seen st) (c # cs) = c # firsts qual call_dir (seen st') cs"
      using True by (simp add: c call_dir_simp seen')
    show ?thesis
    proof (cases "strategy_of E root fs (clcfg st) p")
      case (Inl fl)
      with route have r: "r = Some fl" by simp
      have p: "fst c = p" by (simp add: c)
      have "outcome (run_calls (cuetsify_fn E root fs) (c # cs) st) = Inl fl"
        by (simp add: c fn r outcome_def)
      moreover have "generate_all E root fs (clcfg st)
                       (map fst (firsts qual call_dir (seen st) (c # cs))) (outfiles st) = Inl fl"
        unfolding fs by (simp add: p Inl)
      ultimately show ?thesis by simp
    next
      case (Inr fb)
      obtain f b where fb: "fb = (f, b)" by (cases fb)
      from route Inr have r: "r = None"
        and out: "outfiles st' = (outfiles st)(filepath_Join [root, strings_Replace p ''.cue'' ''.gen.ts'']
                                  \<mapsto> tsTemplate_Execute (f\<lparr>Body := b\<rparr>))"
        by (simp_all add: fb)
      have "outcome (run_calls (cuetsify_fn E root fs) (c # cs) st)
              = outcome (run_calls (cuetsify_fn E root fs) cs st')"
        by (simp add: c fn r)
      also have "\<dots> = generate_all E root fs (clcfg st')
                          (map fst (firsts qual call_dir (seen st') cs)) (outfiles st')"
        by (rule Cons.IH [OF rest])
      also have "\<dots> = generate_all E root fs (clcfg st)
                          (map fst (firsts qual call_dir (seen st') cs)) (outfiles st')"
        by (rule generate_all_cfg [OF cfg])
      also have "\<dots> = generate_all E root fs (clcfg st)
                          (map fst (firsts qual call_dir (seen st) (c # cs))) (outfiles st)"
        unfolding fs by (simp add: Inr fb out c)
      finally show ?thesis .
    qed
  qed
qed

lemma cuetsify_generate:
  assumes "readable fs"
  shows "outcome (cuetsify E root fs st)
           = generate_all E root fs (clcfg st) (first_by filepath_Dir (schema_files fs)) (outfiles st)"
proof -
  have "\<forall>(p, d, e)\<in>set (walk_list ''.'' ''.'' fs). e = None \<and> d \<noteq> None"
    using readable_calls(1) [OF assms] by blast
  from run_calls_generate [OF this, of E root fs "st\<lparr>seen := {}\<rparr>"] show ?thesis
    by (simp add: cuetsify_run_calls firsts_first_by schema_files_def
        first_by_map [of call_dir filepath_Dir fst] call_dir_def)
qed

lemma lex_append:
  fixes n m :: string
  shows "n < m \<Longrightarrow> ns @ n # a < ns @ m # b"
  by (induction ns) simp_all

lemma elements_path_of:
  assumes "zs \<noteq> []" and "\<forall>x\<in>set zs. valid_name x"
  shows "elements (path_of zs) = zs"
  using assms by (simp add: elements_def path_of_def Split_Join valid_name_def)

lemma qual_file: "qual (p, d, e) \<Longrightarrow> \<exists>dn. d = Some (dn, False)"
  by (cases d) (auto simp: qual_def)

lemma not_qual_dir: "\<not> qual (p, Some (dn, True), e)"
  by (simp add: qual_def)

lemma sorted_walk:
  "wf_node n \<Longrightarrow> sorted_node n \<Longrightarrow> name = path_of ns \<Longrightarrow> \<forall>x\<in>set ns. valid_name x \<Longrightarrow>
     sorted_wrt (<) (map (\<lambda>c. elements (fst c)) (filter qual (walk_list name dname n)))"
  "wf_entries es \<Longrightarrow> distinct (map fst es) \<Longrightarrow> sorted_wrt (<) (map fst es) \<Longrightarrow>
   sorted_entries es \<Longrightarrow> name = path_of ns \<Longrightarrow> \<forall>x\<in>set ns. valid_name x \<Longrightarrow>
     sorted_wrt (<) (map (\<lambda>c. elements (fst c)) (filter qual (walk_list_range name es)))"
proof (induction name dname n and name es arbitrary: ns and ns
    rule: walk_list_walk_list_range.induct)
  case (1 name dname c)
  show ?case by simp
next
  case (2 name dname e)
  show ?case by (simp add: not_qual_dir)
next
  case (3 name dname es)
  from "3.prems" have "sorted_wrt (<) (map (\<lambda>c. elements (fst c)) (filter qual (walk_list_range name es)))"
    by (intro "3.IH") simp_all
  then show ?case by (simp add: not_qual_dir)
next
  case (4 name)
  show ?case by simp
next
  case (5 name n c es)
  from "5.prems"(1) have n: "valid_name n" and wfc: "wf_node c" and wfes: "wf_entries es"
    by simp_all
  from "5.prems"(2) have dist: "distinct (map fst es)" by simp
  from "5.prems"(3) have less: "\<forall>m\<in>set (map fst es). n < m" and srt: "sorted_wrt (<) (map fst es)"
    by simp_all
  from "5.prems"(4) have sc: "sorted_node c" and ses: "sorted_entries es" by simp_all
  have nm: "filepath_Join [name, n] = path_of (ns @ [n])"
    unfolding "5.prems"(5) by (rule Join_child [OF "5.prems"(6) n])
  have v: "\<forall>x\<in>set (ns @ [n]). valid_name x" using "5.prems"(6) n by simp
  have 1: "sorted_wrt (<) (map (\<lambda>c. elements (fst c))
             (filter qual (walk_list (filepath_Join [name, n]) n c)))"
    by (rule "5.IH"(1) [OF wfc sc nm v])
  have 2: "sorted_wrt (<) (map (\<lambda>c. elements (fst c)) (filter qual (walk_list_range name es)))"
    by (rule "5.IH"(2) [OF wfes dist srt ses "5.prems"(5,6)])
  have 3: "elements (fst x) < elements (fst y)"
    if x: "x \<in> set (walk_list (filepath_Join [name, n]) n c)"
      and y: "y \<in> set (walk_list_range name es)" for x y
  proof -
    obtain px dx ex where xe: "x = (px, dx, ex)" by (cases x)
    obtain py dy ey where ye: "y = (py, dy, ey)" by (cases y)
    from walk_list_shape(1) [OF wfc nm v x [unfolded xe]]
    obtain ms where px: "px = path_of ((ns @ [n]) @ ms)" and ms: "\<forall>x\<in>set ms. valid_name x"
      by blast
    from walk_list_shape(2) [OF wfes dist "5.prems"(5,6) y [unfolded ye]]
    obtain m c' ms' where mc: "(m, c') \<in> set es" and py: "py = path_of (ns @ m # ms')"
      and ms': "\<forall>x\<in>set ms'. valid_name x" and m: "valid_name m"
      by blast
    from mc less have "n < m" by force
    then have "ns @ n # ms < ns @ m # ms'" by (rule lex_append)
    moreover have "elements px = ns @ n # ms"
      unfolding px using "5.prems"(6) n ms by (subst elements_path_of) auto
    moreover have "elements py = ns @ m # ms'"
      unfolding py using "5.prems"(6) m ms' by (subst elements_path_of) auto
    ultimately show ?thesis by (simp add: xe ye)
  qed
  from 1 2 3 show ?case
    by (simp add: sorted_wrt_append) force
qed

lemma schema_files_sorted:
  assumes "wf_node fs" and "sorted_node fs"
  shows "sorted_wrt (<) (map elements (schema_files fs))"
proof -
  have "''.'' = path_of []" by (simp add: path_of_def)
  from sorted_walk(1) [OF assms this, of "''.''"] show ?thesis
    by (simp add: schema_files_def o_def)
qed

lemma first_by_least:
  assumes srt: "sorted_wrt (<) (map f xs)"
    and p: "p \<in> set (first_by key xs)" and q: "q \<in> set xs"
    and same: "key q = key p" and neq: "q \<noteq> p"
  shows "f p < f q"
proof -
  from p obtain i where i: "i < length xs" "p = xs ! i" "key (xs ! i) \<notin> key ` set (take i xs)"
    by (auto simp: first_by_def)
  from q obtain j where j: "j < length xs" "q = xs ! j"
    by (auto simp: in_set_conv_nth)
  have "\<not> j < i"
  proof
    assume "j < i"
    with i(1) j have "q \<in> set (take i xs)"
      by (auto simp: in_set_conv_nth)
    then have "key q \<in> key ` set (take i xs)" by (rule imageI)
    with same i(2,3) show False by simp
  qed
  moreover from neq i(2) j(2) have "j \<noteq> i" by auto
  ultimately have "i < j" by simp
  with srt j(1) have "map f xs ! i < map f xs ! j"
    by (intro sorted_wrt_nth_less) simp_all
  with i j show ?thesis by simp
qed

text \<open>
  C8.  On a well-formed, sorted and readable tree the walk does what \<open>generate_all\<close> does on
  the first qualifying file of each directory, taken in walk order: the strategy of each of
  these files is run and its output written, up to the first failure, and no other file
  reaches a strategy or the collector.  The file taken for a directory is lexically before
  every other qualifying file of that directory.  Two runs on the same input differ at most
  in the order in which the runtime lets \<^verbatim>\<open>range importMap\<close> yield the keys, and that order
  does not reach the output: both runs fail, or both succeed with the same paths and the
  same bytes.
\<close>

theorem C8_first_file_of_each_directory:
  assumes "wf_node fs" and "sorted_node fs" and "readable fs"
  shows "outcome (cuetsify E root fs st)
           = generate_all E root fs (clcfg st) (first_by filepath_Dir (schema_files fs)) (outfiles st)
         \<and> (\<forall>p\<in>set (first_by filepath_Dir (schema_files fs)). \<forall>q\<in>set (schema_files fs).
               filepath_Dir q = filepath_Dir p \<and> q \<noteq> p \<longrightarrow> elements p < elements q)
         \<and> map_sum (\<lambda>_. ()) id (CuetsifyPlugins (E\<lparr>importMap_range := k1\<rparr>) root)
             = map_sum (\<lambda>_. ()) id (CuetsifyPlugins (E\<lparr>importMap_range := k2\<rparr>) root)"
proof (intro conjI ballI impI)
  show "outcome (cuetsify E root fs st)
          = generate_all E root fs (clcfg st) (first_by filepath_Dir (schema_files fs)) (outfiles st)"
    by (rule cuetsify_generate [OF assms(3)])
next
  fix p q
  assume "p \<in> set (first_by filepath_Dir (schema_files fs))" and "q \<in> set (schema_files fs)"
    and "filepath_Dir q = filepath_Dir p \<and> q \<noteq> p"
  with schema_files_sorted [OF assms(1,2)] show "elements p < elements q"
    by (intro first_by_least [where key = filepath_Dir and xs = "schema_files fs"]) simp_all
next
  show "map_sum (\<lambda>_. ()) id (CuetsifyPlugins (E\<lparr>importMap_range := k1\<rparr>) root)
          = map_sum (\<lambda>_. ()) id (CuetsifyPlugins (E\<lparr>importMap_range := k2\<rparr>) root)"
    by (rule CuetsifyPlugins_range)
qed

theorem C8_first_file_of_each_directory_witness:
  "schema_files demo_fs
     = [''cue.mod/pkg/x.cue'', ''kinds/a.cue'', ''kinds/b.cue'', ''public/app/plugins/p/models.cue'']
   \<and> first_by filepath_Dir (schema_files demo_fs)
     = [''cue.mod/pkg/x.cue'', ''kinds/a.cue'', ''public/app/plugins/p/models.cue'']
   \<and> map_sum id (\<lambda>out. (out ''out/kinds/a.gen.ts'' \<noteq> None, out ''out/kinds/b.gen.ts''))
         (outcome (cuetsify demo_env ''out'' demo_fs demo_st)) = Inr (True, None)
   \<and> elements ''kinds/a.cue'' < elements ''kinds/b.cue''
   \<and> map_sum (\<lambda>_. ()) id (CuetsifyPlugins (demo_env\<lparr>importMap_range := demo_range\<rparr>) ''out'')
     = map_sum (\<lambda>_. ()) id (CuetsifyPlugins (demo_env\<lparr>importMap_range := rev demo_range\<rparr>) ''out'')"
proof -
  have h1: "wf_node demo_fs" by code_simp
  have h2: "sorted_node demo_fs" by code_simp
  have h3: "readable demo_fs" by code_simp
  have s: "schema_files demo_fs
     = [''cue.mod/pkg/x.cue'', ''kinds/a.cue'', ''kinds/b.cue'', ''public/app/plugins/p/models.cue'']"
    by code_simp
  have f2: "first_by filepath_Dir
       [''cue.mod/pkg/x.cue'', ''kinds/a.cue'', ''kinds/b.cue'', ''public/app/plugins/p/models.cue'']
     = [''cue.mod/pkg/x.cue'', ''kinds/a.cue'', ''public/app/plugins/p/models.cue'']"
    by code_simp
  have f: "first_by filepath_Dir (schema_files demo_fs)
     = [''cue.mod/pkg/x.cue'', ''kinds/a.cue'', ''public/app/plugins/p/models.cue'']"
    unfolding s by (rule f2)
  have g: "map_sum id (\<lambda>out. (out ''out/kinds/a.gen.ts'' \<noteq> None, out ''out/kinds/b.gen.ts''))
         (generate_all demo_env ''out'' demo_fs (clcfg demo_st)
            [''cue.mod/pkg/x.cue'', ''kinds/a.cue'', ''public/app/plugins/p/models.cue'']
            (outfiles demo_st)) = Inr (True, None)"
    by code_simp
  have d: "filepath_Dir ''kinds/b.cue'' = filepath_Dir ''kinds/a.cue'' \<and> ''kinds/b.cue'' \<noteq> ''kinds/a.cue''"
    by code_simp
  note inst = C8_first_file_of_each_directory [OF h1 h2 h3, of demo_env "''out''" demo_st
      demo_range "rev demo_range"]
  from inst have 1: "outcome (cuetsify demo_env ''out'' demo_fs demo_st)
      = generate_all demo_env ''out'' demo_fs (clcfg demo_st)
          [''cue.mod/pkg/x.cue'', ''kinds/a.cue'', ''public/app/plugins/p/models.cue''] (outfiles demo_st)"
    unfolding s f2 by (rule conjunct1)
  from inst have "\<forall>p\<in>set [''cue.mod/pkg/x.cue'', ''kinds/a.cue'', ''public/app/plugins/p/models.cue''].
      \<forall>q\<in>set [''cue.mod/pkg/x.cue'', ''kinds/a.cue'', ''kinds/b.cue'', ''public/app/plugins/p/models.cue''].
        filepath_Dir q = filepath_Dir p \<and> q \<noteq> p \<longrightarrow> elements p < elements q"
    unfolding s f2 by (rule conjunct1 [OF conjunct2])
  with d have 2: "elements ''kinds/a.cue'' < elements ''kinds/b.cue''"
    by (simp del: list.simps(9) list.map)
  from inst have 3: "map_sum (\<lambda>_. ()) id (CuetsifyPlugins (demo_env\<lparr>importMap_range := demo_range\<rparr>) ''out'')
     = map_sum (\<lambda>_. ()) id (CuetsifyPlugins (demo_env\<lparr>importMap_range := rev demo_range\<rparr>) ''out'')"
    by (rule conjunct2 [OF conjunct2])
  from s f g 1 2 3 show ?thesis by (simp only: simp_thms)
qed

section \<open>What the branches do at the edges\<close>

text \<open>
  C5.  The claim: an error of opening or parsing the schema file again, for its imports, is
  returned to the caller and ends the run.  The code assigns both errors to the blank
  identifier.  With a parser that reports a syntax error and returns the file it could read,
  the run succeeds and writes the output of the plugin.
\<close>

theorem C5_parse_error_is_dropped:
  "map_sum id (\<lambda>out. out ''out/public/app/plugins/p/models.gen.ts'' \<noteq> None)
     (CuetsifyPlugins syntax_error_env ''out'') = Inr True"
  by code_simp

text \<open>
  C7.  The claim: the output path is the path of the schema file with the extension
  \<^verbatim>\<open>.cue\<close> replaced by \<^verbatim>\<open>.gen.ts\<close> and nothing else changed.  The code replaces every
  \<^verbatim>\<open>.cue\<close> of the path: for \<^verbatim>\<open>a.cue.d/models.cue\<close> nothing is written at
  \<^verbatim>\<open>out/a.cue.d/models.gen.ts\<close>, the output is at \<^verbatim>\<open>out/a.gen.ts.d/models.gen.ts\<close>.
\<close>

theorem C7_every_cue_of_the_path_replaced:
  "map_sum id (\<lambda>out. (out ''out/a.cue.d/models.gen.ts'', out ''out/a.gen.ts.d/models.gen.ts'' \<noteq> None))
     (CuetsifyPlugins dotted_dir_env ''out'') = Inr (None, True)"
  by code_simp

text \<open>
  C10.  When instance resolution yields no instance, the generic strategy and the loader both
  index the empty list: the result is a panic, not an error value.
\<close>

theorem C10_empty_instance_list_panics:
  assumes "load_Instances E cfg = []"
  shows "generic_strategy E cfg path = Inl (Panic ''index out of range [0] with length 0'')
         \<and> (loader_Config E modFS dir pkgname = Inr cfg \<longrightarrow>
              loadInstancesWithThema E modFS dir pkgname
                = Inl (Panic ''index out of range [0] with length 0''))"
  using assms by (simp add: generic_strategy_def loadInstancesWithThema_def)

theorem C10_empty_instance_list_panics_witness:
  "\<exists>cfg. loader_Config no_instance_env demo_fs ''public/app/plugins/p'' ''grafanaschema'' = Inr cfg
         \<and> generic_strategy no_instance_env cfg ''kinds/a.cue''
             = Inl (Panic ''index out of range [0] with length 0'')
         \<and> loadInstancesWithThema no_instance_env demo_fs ''public/app/plugins/p'' ''grafanaschema''
             = Inl (Panic ''index out of range [0] with length 0'')"
proof -
  have "case loader_Config no_instance_env demo_fs ''public/app/plugins/p'' ''grafanaschema'' of
          Inl f \<Rightarrow> False | Inr cfg \<Rightarrow> True"
    by code_simp
  then obtain cfg where
    cfg: "loader_Config no_instance_env demo_fs ''public/app/plugins/p'' ''grafanaschema'' = Inr cfg"
    by (cases "loader_Config no_instance_env demo_fs ''public/app/plugins/p'' ''grafanaschema''") auto
  have e: "load_Instances no_instance_env cfg = []"
    by (simp add: no_instance_env_def)
  from C10_empty_instance_list_panics [OF e, of "''kinds/a.cue''" demo_fs
      "''public/app/plugins/p''" "''grafanaschema''"] cfg
  show ?thesis by blast
qed

end
